theory Spec2Isabelle
  imports
    Complex_Main
    "HOL-Library.Char_ord"
    "HOL-Library.List_Lexorder"
    "HOL-Library.AList"
    "HOL-Library.Multiset"
begin

section \<open>Data model\<close>

text \<open>
  Python \<open>bytes\<close> are lists of 8-bit characters; a \<open>str\<close> that holds a file name or a
  protocol message is the same list (the messages of this program are ASCII, where
  \<open>encode\<close> and \<open>decode\<close> are the identity). \<open>sorted\<close> on a list of \<open>str\<close> is the
  lexicographic order on character codes, which is the order of \<open>HOL-Library.List_Lexorder\<close>
  over \<open>HOL-Library.Char_ord\<close>.
\<close>

type_synonym bytes = string

text \<open>
  A directory that holds regular files only: an association list from file name to
  content, with distinct names. The order of the list is the order in which
  \<open>os.listdir\<close> reports the names, which the operating system chooses.
\<close>

type_synonym directory = "(string \<times> bytes) list"

definition listdir :: "directory \<Rightarrow> string list" where
  "listdir d = map fst d"

definition read_file :: "directory \<Rightarrow> string \<Rightarrow> bytes option" where
  "read_file d name = map_of d name"

definition write_file :: "directory \<Rightarrow> string \<Rightarrow> bytes \<Rightarrow> directory" where
  "write_file d name content = AList.update name content d"

definition remove_file :: "directory \<Rightarrow> string \<Rightarrow> directory" where
  "remove_file d name = AList.delete name d"

definition startswith :: "string \<Rightarrow> string \<Rightarrow> bool" where
  "startswith s p = (take (length p) s = p)"

definition endswith :: "string \<Rightarrow> string \<Rightarrow> bool" where
  "endswith s p = (length p \<le> length s \<and> drop (length s - length p) s = p)"

text \<open>The dictionary \<open>file_metadata\<close>; its key \<open>size\<close> is the field \<open>size_md\<close>.\<close>

record file_metadata =
  original_filename :: string
  extension :: string
  size_md :: nat
  chunk_count :: nat

text \<open>The source file as \<open>split_file\<close> sees it: what \<open>os.path.basename\<close> and
  \<open>os.path.splitext\<close> make of its path, and its bytes.\<close>

record source_file =
  src_basename :: string
  src_extension :: string
  src_bytes :: bytes

section \<open>Decimal numerals and JSON text\<close>

definition digit_char :: "nat \<Rightarrow> char" where
  "digit_char d = char_of (48 + d)"

function str_nat :: "nat \<Rightarrow> string" where
  "str_nat n = (if n < 10 then [digit_char n] else str_nat (n div 10) @ [digit_char (n mod 10)])"
  by pat_completeness auto
termination
  by (relation "measure id") auto

declare str_nat.simps [simp del]

text \<open>\<open>f"chunk_{i}.part"\<close>\<close>

definition chunk_name :: "nat \<Rightarrow> string" where
  "chunk_name i = ''chunk_'' @ str_nat i @ ''.part''"

definition hex_char :: "nat \<Rightarrow> char" where
  "hex_char d = (if d < 10 then char_of (48 + d) else char_of (87 + d))"

text \<open>The string escapes of \<open>json.dumps\<close> with its default \<open>ensure_ascii=True\<close>:
  everything outside \<open>' '..'~'\<close>, the quote and the backslash are escaped.\<close>

definition json_escape_char :: "char \<Rightarrow> string" where
  "json_escape_char c =
     (let n = (of_char c :: nat) in
      if c = CHR ''\"'' then [CHR 0x5C, CHR ''\"'']
      else if c = CHR 0x5C then [CHR 0x5C, CHR 0x5C]
      else if 32 \<le> n \<and> n \<le> 126 then [c]
      else if n = 8 then [CHR 0x5C, CHR ''b'']
      else if n = 12 then [CHR 0x5C, CHR ''f'']
      else if n = 10 then [CHR 0x5C, CHR ''n'']
      else if n = 13 then [CHR 0x5C, CHR ''r'']
      else if n = 9 then [CHR 0x5C, CHR ''t'']
      else [CHR 0x5C, CHR ''u'', CHR ''0'', CHR ''0'', hex_char (n div 16), hex_char (n mod 16)])"

definition json_string :: "string \<Rightarrow> string" where
  "json_string s = [CHR ''\"''] @ concat (map json_escape_char s) @ [CHR ''\"'']"

text \<open>\<open>json.dump(file_metadata, metadata_file)\<close>: the keys in insertion order, with
  the default separators.\<close>

definition json_dump :: "file_metadata \<Rightarrow> bytes" where
  "json_dump m =
     ''{'' @ json_string ''original_filename'' @ '': '' @ json_string (original_filename m) @ '', ''
       @ json_string ''extension'' @ '': '' @ json_string (extension m) @ '', ''
       @ json_string ''size'' @ '': '' @ str_nat (size_md m) @ '', ''
       @ json_string ''chunk_count'' @ '': '' @ str_nat (chunk_count m) @ ''}''"

section \<open>The sender: \<open>split_file\<close>\<close>

text \<open>
  The reading loop of \<open>split_file\<close>: \<open>f.read(chunk_size)\<close> returns the next
  \<open>chunk_size\<close> bytes of a regular file, fewer at its end, and \<open>b''\<close> once nothing is
  left. The state is the unread rest of the file, the counter \<open>i\<close>, the chunk directory
  and the list \<open>chunks\<close>.
\<close>

function split_loop ::
  "nat \<Rightarrow> bytes \<Rightarrow> nat \<Rightarrow> directory \<Rightarrow> string list \<Rightarrow> nat \<times> directory \<times> string list" where
  "split_loop chunk_size rest i d chunks =
     (if take chunk_size rest = [] then (i, d, chunks)
      else split_loop chunk_size (drop chunk_size rest) (Suc i)
             (write_file d (chunk_name i) (take chunk_size rest))
             (chunks @ [chunk_name i]))"
  by pat_completeness auto
termination
  by (relation "measure (\<lambda>(chunk_size, rest, i, d, chunks). length rest)") auto

declare split_loop.simps [simp del]

text \<open>Removing every regular file of an existing chunk directory.\<close>

definition clear_dir :: "directory \<Rightarrow> directory" where
  "clear_dir d = fold (\<lambda>filename acc. remove_file acc filename) (listdir d) d"

text \<open>
  \<open>split_file(file_path, chunk_size)\<close>. The chunk directory is \<open>None\<close> when it does not
  exist yet; the source is \<open>None\<close> when \<open>file_path\<close> does not exist. The source lies
  outside the chunk directory. The result is the returned list and the chunk directory
  the call leaves behind.
\<close>

definition split_file ::
  "directory option \<Rightarrow> source_file option \<Rightarrow> nat \<Rightarrow> string list \<times> directory" where
  "split_file chunks_dir src chunk_size =
     (let d0 = (case chunks_dir of Some d \<Rightarrow> clear_dir d | None \<Rightarrow> []) in
      case src of
        None \<Rightarrow> ([], d0)
      | Some f \<Rightarrow>
          (let file_size = length (src_bytes f);
               (i, d1, chunks) = split_loop chunk_size (src_bytes f) 0 d0 [];
               file_metadata = \<lparr>original_filename = src_basename f,
                                extension = src_extension f,
                                size_md = file_size,
                                chunk_count = i\<rparr>;
               d2 = write_file d1 ''file_metadata.json'' (json_dump file_metadata)
           in (chunks @ [''file_metadata.json''], d2)))"

section \<open>The receiver: \<open>reconstruct_file\<close>\<close>

text \<open>
  \<open>get_file_metadata()\<close>. The JSON parser is a parameter: \<open>json_load\<close> gives the
  dictionary a text parses to, and \<open>None\<close> where \<open>json.load\<close> raises (which the
  function catches and turns into \<open>None\<close>). The model covers the metadata files that
  hold a JSON object with the four entries that \<open>split_file\<close> writes, and those that do
  not parse; a text that parses to another JSON value (for which \<open>reconstruct_file\<close> may
  raise) is outside it.
\<close>

definition get_file_metadata :: "(bytes \<Rightarrow> file_metadata option) \<Rightarrow> directory \<Rightarrow> file_metadata option" where
  "get_file_metadata json_load d =
     (case read_file d ''file_metadata.json'' of
        None \<Rightarrow> None
      | Some text \<Rightarrow> json_load text)"

definition is_chunk_file :: "string \<Rightarrow> bool" where
  "is_chunk_file f = (startswith f ''chunk_'' \<and> endswith f ''.part'')"

text \<open>The loop over \<open>chunk_files\<close>: each chunk is read whole and appended to the output.
  Every name comes from the listing, so the file is there.\<close>

fun copy_chunks :: "directory \<Rightarrow> string list \<Rightarrow> bytes \<Rightarrow> bytes" where
  "copy_chunks d [] output = output"
| "copy_chunks d (name # rest) output =
     copy_chunks d rest (output @ (case read_file d name of Some content \<Rightarrow> content | None \<Rightarrow> []))"

text \<open>
  \<open>reconstruct_file()\<close> on the download directory: the returned flag and the directory
  it leaves behind. Opening the output with \<open>"wb"\<close> creates or truncates it before any
  chunk is read. The model covers the output names that are plain file names, so that the
  output lies in the download directory itself and can be opened, and that are not the
  name of a chunk file that is read.
\<close>

definition reconstruct_file :: "(bytes \<Rightarrow> file_metadata option) \<Rightarrow> directory \<Rightarrow> bool \<times> directory" where
  "reconstruct_file json_load d =
     (let metadata = get_file_metadata json_load d;
          output_path = (case metadata of
                           None \<Rightarrow> ''reconstructed_file''
                         | Some m \<Rightarrow> original_filename m);
          chunk_files = sort (filter is_chunk_file (listdir d))
      in if chunk_files = [] then (False, d)
         else
           (let d1 = write_file d output_path [];
                output = copy_chunks d1 chunk_files [];
                d2 = write_file d1 output_path output
            in (output \<noteq> [], d2)))"

section \<open>Sockets\<close>

text \<open>
  What the other end of a connection does, as the successive \<open>recv\<close> calls of this end
  see it: it sends bytes, the connection is reset, another socket error occurs, or it
  keeps the connection open and sends nothing. When the list is used up the other end has
  closed, and \<open>recv\<close> returns \<open>b''\<close>.
\<close>

datatype recv_event = Data bytes | ConnReset | OtherError | Silent

text \<open>
  And as the successive \<open>sendall\<close> calls of this end see it: the bytes are taken (they
  fit into the buffers of the connection, or the other end reads them), the call fails
  with a socket error, or the other end has stopped reading and the bytes find no room in
  the buffers. When the list is used up every later \<open>sendall\<close> is taken.
\<close>

datatype send_event = Taken | SendError | Stalled

text \<open>The other end of one connection; \<open>shutdown_raises\<close> tells whether
  \<open>shutdown(SHUT_WR)\<close> on it raises.\<close>

record connection =
  recvs :: "recv_event list"
  sends :: "send_event list"
  shutdown_raises :: bool

text \<open>
  A socket with the timeout it carries, what is still to come on it, and the byte
  strings that \<open>sendall\<close> has delivered. \<open>socket.socket(AF_INET, SOCK_STREAM)\<close> followed
  by \<open>connect\<close>, and \<open>accept()\<close>, give a blocking socket with no timeout (\<open>None\<close>); only
  \<open>settimeout\<close> would set one, and no source file calls it.
\<close>

record sock =
  timeout :: "nat option"
  incoming :: "recv_event list"
  outgoing :: "send_event list"
  sent :: "bytes list"
  shutdown_error :: bool

definition socket_socket :: "connection \<Rightarrow> sock" where
  "socket_socket c =
     \<lparr>timeout = None, incoming = recvs c, outgoing = sends c, sent = [],
      shutdown_error = shutdown_raises c\<rparr>"

datatype recv_result =
    Got bytes | RaisesReset | RaisesOther | RaisesTimeout | NeverReturns

text \<open>\<open>recv\<close>: on a silent peer a socket with a timeout raises after that time, and a
  socket without one does not return.\<close>

definition recv :: "sock \<Rightarrow> recv_result \<times> sock" where
  "recv s =
     (case incoming s of
        [] \<Rightarrow> (Got [], s)
      | Data b # evs \<Rightarrow> (Got b, s\<lparr>incoming := evs\<rparr>)
      | ConnReset # evs \<Rightarrow> (RaisesReset, s\<lparr>incoming := evs\<rparr>)
      | OtherError # evs \<Rightarrow> (RaisesOther, s\<lparr>incoming := evs\<rparr>)
      | Silent # evs \<Rightarrow>
          (case timeout s of
             None \<Rightarrow> (NeverReturns, s)
           | Some t \<Rightarrow> (RaisesTimeout, s\<lparr>incoming := evs\<rparr>)))"

datatype send_result = Sent | SendRaises | SendNeverReturns

text \<open>\<open>sendall\<close>: when the bytes find no room, a socket with a timeout raises after that
  time, and a socket without one does not return.\<close>

definition sendall :: "sock \<Rightarrow> bytes \<Rightarrow> send_result \<times> sock" where
  "sendall s b =
     (case outgoing s of
        [] \<Rightarrow> (Sent, s\<lparr>sent := sent s @ [b]\<rparr>)
      | Taken # evs \<Rightarrow> (Sent, s\<lparr>outgoing := evs, sent := sent s @ [b]\<rparr>)
      | SendError # evs \<Rightarrow> (SendRaises, s\<lparr>outgoing := evs\<rparr>)
      | Stalled # evs \<Rightarrow>
          (case timeout s of
             None \<Rightarrow> (SendNeverReturns, s)
           | Some t \<Rightarrow> (SendRaises, s\<lparr>outgoing := evs\<rparr>)))"

text \<open>\<open>connect\<close> either succeeds or raises. A call of a function of the program either
  returns, or blocks for ever inside \<open>recv\<close> or \<open>sendall\<close>.\<close>

datatype 'a outcome = Returns 'a | Blocks

datatype py_error = ValueError

section \<open>Names that arrive over the network\<close>

text \<open>
  The programs join a name they were sent onto a folder with \<open>os.path.join\<close> and open
  the result, without looking at the name. A plain name is one that can only mean an
  entry of that folder on a POSIX file system: ASCII, not empty, neither \<open>.\<close> nor \<open>..\<close>,
  without \<open>/\<close> and without a NUL, of at most 255 bytes. For a plain name \<open>decode\<close> and
  \<open>encode\<close> are the identity.
\<close>

definition plain_name :: "string \<Rightarrow> bool" where
  "plain_name name =
     (name \<noteq> [] \<and> name \<noteq> ''.'' \<and> name \<noteq> ''..'' \<and> length name \<le> 255
      \<and> list_all (\<lambda>c. c \<noteq> CHR ''/'' \<and> c \<noteq> CHR 0x00 \<and> (of_char c :: nat) < 128) name)"

text \<open>
  What is found at a path when it is opened for reading: nothing (\<open>os.path.exists\<close> is
  false), something that exists with a size other than zero but cannot be opened and
  read (a directory, a file without permission), or a file with its content.
\<close>

datatype found = Missing | Unreadable | Holds bytes

text \<open>
  Where a name leads. \<open>Undecodable\<close>: the bytes are not UTF-8 and \<open>decode\<close> raises (or the
  string has no encoding and \<open>encode\<close> raises). \<open>InFolder n\<close>: the joined path is the
  entry \<open>n\<close> of the folder. \<open>Elsewhere f w\<close>: the path leaves the folder, or is the folder
  itself; \<open>f\<close> is what is found there, and \<open>w\<close> tells whether \<open>open(path, 'wb')\<close> succeeds.
\<close>

datatype target = Undecodable | InFolder string | Elsewhere found bool

text \<open>
  A plain name leads to the entry of that name. For every other name the machine decides
  (its directories, links and permissions, and the bytes of the name): \<open>fs\<close> is that
  decision, and every theorem below holds for each \<open>fs\<close>.
\<close>

definition locate :: "(string \<Rightarrow> target) \<Rightarrow> string \<Rightarrow> target" where
  "locate fs name = (if plain_name name then InFolder name else fs name)"

text \<open>What \<open>os.path.exists\<close>, \<open>os.path.getsize\<close> and \<open>open(path, 'rb')\<close> find at the
  entry \<open>n\<close> of a folder; the folder is \<open>None\<close> while it does not exist.\<close>

definition lookup :: "directory option \<Rightarrow> string \<Rightarrow> found" where
  "lookup folder n =
     (case folder of
        None \<Rightarrow> Missing
      | Some d \<Rightarrow> (case read_file d n of None \<Rightarrow> Missing | Some content \<Rightarrow> Holds content))"

section \<open>The tracker\<close>

text \<open>
  \<open>str.isspace\<close> on the code points below 256, which are the characters of the model:
  tab to carriage return, the four separators, the space, NEL and the no-break space.
  \<open>str.strip()\<close> removes these at both ends.
\<close>

definition isspace :: "char \<Rightarrow> bool" where
  "isspace c =
     (let n = (of_char c :: nat)
      in (9 \<le> n \<and> n \<le> 13) \<or> (28 \<le> n \<and> n \<le> 32) \<or> n = 133 \<or> n = 160)"

definition strip :: "string \<Rightarrow> string" where
  "strip s = rev (dropWhile isspace (rev (dropWhile isspace s)))"

text \<open>\<open>s.split(' ', 1)\<close>: cut at the first space, if there is one.\<close>

definition split_space1 :: "string \<Rightarrow> string list" where
  "split_space1 s =
     (if CHR '' '' \<in> set s
      then [takeWhile (\<lambda>c. c \<noteq> CHR '' '') s, tl (dropWhile (\<lambda>c. c \<noteq> CHR '' '') s)]
      else [s])"

fun join_with :: "string \<Rightarrow> string list \<Rightarrow> string" where
  "join_with sep [] = []"
| "join_with sep [x] = x"
| "join_with sep (x # y # ys) = x @ sep @ join_with sep (y # ys)"

text \<open>\<open>json.dumps\<close> of a list of strings.\<close>

definition json_dumps_list :: "string list \<Rightarrow> bytes" where
  "json_dumps_list xs = ''['' @ join_with '', '' (map json_string xs) @ '']''"

text \<open>Lines 45 and 46 of the tracker: append unless already listed.\<close>

definition register_peer :: "string list \<Rightarrow> string \<Rightarrow> string list" where
  "register_peer peers peer_info = (if peer_info \<in> set peers then peers else peers @ [peer_info])"

text \<open>
  One round of the accept loop on the decoded request: the new list \<open>peers\<close> and what is
  sent back, or the exception that the unpacking of the split raises. Nothing in
  \<open>start_tracker\<close> catches an exception.
\<close>

definition tracker_step :: "string list \<Rightarrow> string \<Rightarrow> py_error + (string list \<times> bytes list)" where
  "tracker_step peers request =
     (if request = ''GET_PEERS'' then Inr (peers, [json_dumps_list peers])
      else if startswith request ''REGISTER_PEER'' then
        (case split_space1 (strip request) of
           [u, peer_info] \<Rightarrow> Inr (register_peer peers peer_info, [])
         | _ \<Rightarrow> Inl ValueError)
      else Inr (peers, []))"

text \<open>
  The accept loop of \<open>start_tracker\<close> over the requests that arrive, in order. \<open>Inl\<close>: the
  exception left the loop and the process ended. \<open>Inr\<close>: every request is handled and the
  tracker waits in \<open>accept\<close>.
\<close>

fun start_tracker :: "string list \<Rightarrow> string list \<Rightarrow> py_error + string list" where
  "start_tracker peers [] = Inr peers"
| "start_tracker peers (request # rest) =
     (case tracker_step peers request of
        Inl e \<Rightarrow> Inl e
      | Inr (peers', reply) \<Rightarrow> start_tracker peers' rest)"

section \<open>The sender: distribution\<close>

text \<open>
  What \<open>json.loads\<close> returns. A float is kept as the numeral it was read from, and a
  dictionary as the list of its items.
\<close>

datatype json =
    JNull | JBool bool | JInt int | JFloat string | JStr string
  | JList "json list" | JDict "(string \<times> json) list"

text \<open>
  \<open>get_peers()\<close>. The connection is \<open>None\<close> when \<open>connect\<close> raises. \<open>json_loads\<close> stands
  for \<open>decode\<close> followed by \<open>json.loads\<close>, and is \<open>None\<close> where one of them raises. Every
  exception is caught and gives the empty list.
\<close>

definition get_peers :: "(bytes \<Rightarrow> json option) \<Rightarrow> connection option \<Rightarrow> json outcome" where
  "get_peers json_loads tracker =
     (case tracker of
        None \<Rightarrow> Returns (JList [])
      | Some c \<Rightarrow>
          (case sendall (socket_socket c) ''GET_PEERS'' of
             (Sent, s1) \<Rightarrow>
               (case recv s1 of
                  (Got response, s2) \<Rightarrow>
                    (case json_loads response of
                       None \<Rightarrow> Returns (JList [])
                     | Some peers \<Rightarrow> Returns peers)
                | (NeverReturns, s2) \<Rightarrow> Blocks
                | (r, s2) \<Rightarrow> Returns (JList []))
           | (SendRaises, s1) \<Rightarrow> Returns (JList [])
           | (SendNeverReturns, s1) \<Rightarrow> Blocks))"

text \<open>The order in which \<open>send_chunks_to_peer\<close> walks the chunk directory.\<close>

definition send_order :: "directory \<Rightarrow> string list" where
  "send_order d =
     (let chunks = sort (listdir d)
      in if ''file_metadata.json'' \<in> set chunks
         then remove1 ''file_metadata.json'' chunks @ [''file_metadata.json'']
         else chunks)"

text \<open>
  The body of the \<open>try\<close> for one chunk file with the content \<open>data\<close>. The connection is
  \<open>None\<close> when \<open>connect\<close> (or the conversion of the port) raises. \<open>True\<close>: the chunk was
  sent and counted. The names of a chunk directory are ASCII, so \<open>encode\<close> does not raise.
\<close>

definition send_one :: "connection option \<Rightarrow> string \<Rightarrow> bytes \<Rightarrow> bool outcome" where
  "send_one conn chunk_file data =
     (case conn of
        None \<Rightarrow> Returns False
      | Some c \<Rightarrow>
          (case sendall (socket_socket c) ''READY_TO_SEND'' of
             (Sent, s1) \<Rightarrow>
               (case recv s1 of
                  (Got ack, s2) \<Rightarrow>
                    if ack \<noteq> ''READY_ACK'' then Returns False
                    else
                      (case sendall s2 chunk_file of
                         (Sent, s3) \<Rightarrow>
                           (case sendall s3 data of
                              (Sent, s4) \<Rightarrow> Returns (\<not> shutdown_error s4)
                            | (SendRaises, s4) \<Rightarrow> Returns False
                            | (SendNeverReturns, s4) \<Rightarrow> Blocks)
                       | (SendRaises, s3) \<Rightarrow> Returns False
                       | (SendNeverReturns, s3) \<Rightarrow> Blocks)
                | (NeverReturns, s2) \<Rightarrow> Blocks
                | (r, s2) \<Rightarrow> Returns False)
           | (SendRaises, s1) \<Rightarrow> Returns False
           | (SendNeverReturns, s1) \<Rightarrow> Blocks))"

text \<open>The loop over the chunk files: empty files are skipped, every other file gets a
  connection of its own. The list \<open>sent_files\<close> records each file a connection was opened
  for, and whether it was sent.\<close>

fun send_loop ::
  "directory \<Rightarrow> (string \<Rightarrow> connection option) \<Rightarrow> string list \<Rightarrow> (string \<times> bool) list
     \<Rightarrow> (string \<times> bool) list outcome" where
  "send_loop d net [] sent_files = Returns sent_files"
| "send_loop d net (chunk_file # rest) sent_files =
     (case read_file d chunk_file of
        None \<Rightarrow> send_loop d net rest sent_files
      | Some data \<Rightarrow>
          if data = [] then send_loop d net rest sent_files
          else (case send_one (net chunk_file) chunk_file data of
                  Blocks \<Rightarrow> Blocks
                | Returns ok \<Rightarrow> send_loop d net rest (sent_files @ [(chunk_file, ok)])))"

text \<open>\<open>send_chunks_to_peer(peer_ip, peer_port)\<close>: the returned flag and that list.\<close>

definition send_chunks_to_peer ::
  "directory option \<Rightarrow> (string \<Rightarrow> connection option) \<Rightarrow> (bool \<times> (string \<times> bool) list) outcome" where
  "send_chunks_to_peer chunks_dir net =
     (case chunks_dir of
        None \<Rightarrow> Returns (False, [])
      | Some d \<Rightarrow>
          (let chunks = send_order d
           in if chunks = [] then Returns (False, [])
              else (case send_loop d net chunks [] of
                      Blocks \<Rightarrow> Blocks
                    | Returns sent_files \<Rightarrow> Returns (list_ex snd sent_files, sent_files))))"

text \<open>\<open>s.split(sep)\<close> for a separator of one character.\<close>

fun split_on :: "char \<Rightarrow> string \<Rightarrow> string list" where
  "split_on c [] = [[]]"
| "split_on c (x # xs) =
     (if x = c then [] # split_on c xs
      else (case split_on c xs of
              w # ws \<Rightarrow> (x # w) # ws
            | [] \<Rightarrow> [[x]]))"

datatype exit_reason = FileMissing | NoChunks | NoPeers

datatype main_result =
    Exit1 exit_reason
  | Raised py_error
  | Complete "(string \<times> string \<times> bool) list"

text \<open>The loop of the main program over the selected peers.\<close>

fun send_to_peers ::
  "directory \<Rightarrow> (string \<Rightarrow> string \<Rightarrow> connection option) \<Rightarrow> string list
     \<Rightarrow> (string \<times> string \<times> bool) list \<Rightarrow> main_result outcome" where
  "send_to_peers d net [] sent_files = Returns (Complete sent_files)"
| "send_to_peers d net (peer # rest) sent_files =
     (case split_on CHR '':'' peer of
        [ip, port] \<Rightarrow>
          (case send_chunks_to_peer (Some d) (net peer) of
             Blocks \<Rightarrow> Blocks
           | Returns (ok, l) \<Rightarrow>
               send_to_peers d net rest (sent_files @ map (\<lambda>(f, b). (peer, f, b)) l))
      | _ \<Rightarrow> Returns (Raised ValueError))"

text \<open>
  The main program of the sender. \<open>src\<close> is \<open>None\<close> when the path typed in does not
  exist. \<open>in_chunks\<close> tells whether that path is a file of the chunk directory:
  \<open>split_file\<close> then removes it with the other files of the directory before it looks for
  it. \<open>tracker_peers\<close> is the list of addresses that \<open>get_peers()\<close> returned;
  \<open>net peer chunk_file\<close> is the other end of the connection to \<open>peer\<close> that pushes
  \<open>chunk_file\<close>.
\<close>

definition alice_main ::
  "directory option \<Rightarrow> source_file option \<Rightarrow> bool \<Rightarrow> string list
     \<Rightarrow> (string \<Rightarrow> string \<Rightarrow> connection option) \<Rightarrow> main_result outcome" where
  "alice_main chunks_dir src in_chunks tracker_peers net =
     (case src of
        None \<Rightarrow> Returns (Exit1 FileMissing)
      | Some f \<Rightarrow>
          (let (chunks, d) = split_file chunks_dir (if in_chunks then None else src) (1024 * 1024)
           in if chunks = [] then Returns (Exit1 NoChunks)
              else if tracker_peers = [] then Returns (Exit1 NoPeers)
              else (let peer_count = min 2 (length tracker_peers)
                    in send_to_peers d net (take peer_count tracker_peers) [])))"

section \<open>The peer\<close>

text \<open>
  The store of a peer is its folder \<open>received_chunks\<close>, \<open>None\<close> while the folder does
  not exist; it holds regular files only. A handler returns the store it leaves and
  the byte strings it has sent; \<open>handle_client\<close> then closes the connection.
\<close>

type_synonym peer_state = "directory option \<times> bytes list"

text \<open>The receiving loop of \<open>handle_incoming_chunk\<close>: the bytes passed to \<open>f.write\<close>,
  and how the loop was left.\<close>

datatype loop_exit = LoopBreak | LoopRaises | LoopBlocks

function receive_data :: "sock \<Rightarrow> bytes \<Rightarrow> loop_exit \<times> bytes" where
  "receive_data s written =
     (case recv s of
        (Got data, s') \<Rightarrow> if data = [] then (LoopBreak, written) else receive_data s' (written @ data)
      | (RaisesReset, s') \<Rightarrow> (LoopBreak, written)
      | (NeverReturns, s') \<Rightarrow> (LoopBlocks, written)
      | (r, s') \<Rightarrow> (LoopRaises, written))"
  by pat_completeness auto
termination
  by (relation "measure (\<lambda>(s, written). length (incoming s))")
     (auto simp: recv_def split: list.splits recv_event.splits option.splits)

declare receive_data.simps [simp del]

text \<open>
  \<open>handle_incoming_chunk(connection)\<close>. A name that does not decode raises before the
  folder is made. \<open>open(save_path, 'wb')\<close> creates the file, or empties the one that is
  there, before the first block is received, and raises when the path cannot be opened;
  what \<open>f.write\<close> was given is in the file when the \<open>with\<close> block is left, by the end of
  the stream or by an exception. The store is recorded when the handler returns. A file
  written outside the folder is not part of the store.
\<close>

definition handle_incoming_chunk ::
  "directory option \<Rightarrow> (string \<Rightarrow> target) \<Rightarrow> sock \<Rightarrow> peer_state outcome" where
  "handle_incoming_chunk store fs s =
     (case sendall s ''READY_ACK'' of
        (Sent, s1) \<Rightarrow>
          (case recv s1 of
             (Got chunk_file_name, s2) \<Rightarrow>
               (case locate fs chunk_file_name of
                  Undecodable \<Rightarrow> Returns (store, sent s2)
                | InFolder n \<Rightarrow>
                    (let d = (case store of None \<Rightarrow> [] | Some d \<Rightarrow> d);
                         d1 = write_file d n []
                     in case receive_data s2 [] of
                          (LoopBlocks, written) \<Rightarrow> Blocks
                        | (e, written) \<Rightarrow> Returns (Some (write_file d1 n written), sent s2))
                | Elsewhere f writable \<Rightarrow>
                    (let d = (case store of None \<Rightarrow> [] | Some d \<Rightarrow> d)
                     in if \<not> writable then Returns (Some d, sent s2)
                        else (case receive_data s2 [] of
                                (LoopBlocks, written) \<Rightarrow> Blocks
                              | (e, written) \<Rightarrow> Returns (Some d, sent s2))))
           | (NeverReturns, s2) \<Rightarrow> Blocks
           | (r, s2) \<Rightarrow> Returns (store, sent s2))
      | (SendRaises, s1) \<Rightarrow> Returns (store, sent s1)
      | (SendNeverReturns, s1) \<Rightarrow> Blocks)"

text \<open>The inner \<open>try\<close> of the two handlers below: one more \<open>sendall\<close>, whose exceptions
  are dropped.\<close>

definition send_quietly :: "directory option \<Rightarrow> sock \<Rightarrow> bytes \<Rightarrow> peer_state outcome" where
  "send_quietly store s b =
     (case sendall s b of
        (SendNeverReturns, s1) \<Rightarrow> Blocks
      | (r, s1) \<Rightarrow> Returns (store, sent s1))"

text \<open>A \<open>sendall\<close> inside the outer \<open>try\<close> of a handler: when it raises, the handler
  of the exception sends \<open>fallback\<close>.\<close>

definition send_or_else :: "directory option \<Rightarrow> sock \<Rightarrow> bytes \<Rightarrow> bytes \<Rightarrow> peer_state outcome" where
  "send_or_else store s b fallback =
     (case sendall s b of
        (Sent, s1) \<Rightarrow> Returns (store, sent s1)
      | (SendRaises, s1) \<Rightarrow> send_quietly store s1 fallback
      | (SendNeverReturns, s1) \<Rightarrow> Blocks)"

definition handle_request_chunks :: "directory option \<Rightarrow> sock \<Rightarrow> peer_state outcome" where
  "handle_request_chunks store s =
     (case store of
        None \<Rightarrow> send_or_else (Some []) s (json_dumps_list []) (json_dumps_list [])
      | Some d \<Rightarrow> send_or_else (Some d) s (json_dumps_list (listdir d)) (json_dumps_list []))"

text \<open>
  \<open>handle_request_specific_chunk(connection)\<close>. The name received is joined onto the
  folder as it is. \<open>NOT_FOUND\<close> is sent when nothing is there or the file is empty; an
  exception (the name does not decode, the file cannot be read, a \<open>sendall\<close> fails) is
  answered with \<open>NOT_FOUND\<close> as well, if that can still be sent.
\<close>

definition handle_request_specific_chunk ::
  "directory option \<Rightarrow> (string \<Rightarrow> target) \<Rightarrow> sock \<Rightarrow> peer_state outcome" where
  "handle_request_specific_chunk store fs s =
     (case sendall s ''REQUEST_ACK'' of
        (Sent, s1) \<Rightarrow>
          (case recv s1 of
             (Got name, s2) \<Rightarrow>
               (case (case locate fs name of
                        Undecodable \<Rightarrow> Unreadable
                      | InFolder n \<Rightarrow> lookup store n
                      | Elsewhere f writable \<Rightarrow> f) of
                  Missing \<Rightarrow> send_or_else store s2 ''NOT_FOUND'' ''NOT_FOUND''
                | Unreadable \<Rightarrow> send_quietly store s2 ''NOT_FOUND''
                | Holds data \<Rightarrow>
                    if data = [] then send_or_else store s2 ''NOT_FOUND'' ''NOT_FOUND''
                    else send_or_else store s2 data ''NOT_FOUND'')
           | (NeverReturns, s2) \<Rightarrow> Blocks
           | (r, s2) \<Rightarrow> send_quietly store s2 ''NOT_FOUND'')
      | (SendRaises, s1) \<Rightarrow> send_quietly store s1 ''NOT_FOUND''
      | (SendNeverReturns, s1) \<Rightarrow> Blocks)"

text \<open>\<open>handle_client(connection)\<close> on the socket that \<open>accept\<close> returned.\<close>

definition handle_client ::
  "directory option \<Rightarrow> (string \<Rightarrow> target) \<Rightarrow> connection \<Rightarrow> peer_state outcome" where
  "handle_client store fs c =
     (case recv (socket_socket c) of
        (Got request, s) \<Rightarrow>
          if request = ''REQUEST_CHUNKS'' then handle_request_chunks store s
          else if request = ''REQUEST_CHUNK'' then handle_request_specific_chunk store fs s
          else if request = ''READY_TO_SEND'' then handle_incoming_chunk store fs s
          else Returns (store, sent s)
      | (NeverReturns, s) \<Rightarrow> Blocks
      | (r, s) \<Rightarrow> Returns (store, sent s))"

section \<open>The receiver: network\<close>

text \<open>\<open>get_peer_list()\<close>, with the conventions of \<open>get_peers\<close>.\<close>

definition get_peer_list :: "(bytes \<Rightarrow> json option) \<Rightarrow> connection option \<Rightarrow> json outcome" where
  "get_peer_list json_loads tracker =
     (case tracker of
        None \<Rightarrow> Returns (JList [])
      | Some c \<Rightarrow>
          (case sendall (socket_socket c) ''GET_PEERS'' of
             (Sent, s1) \<Rightarrow>
               (case recv s1 of
                  (Got peer_data, s2) \<Rightarrow>
                    (case json_loads peer_data of
                       None \<Rightarrow> Returns (JList [])
                     | Some peers \<Rightarrow> Returns peers)
                | (NeverReturns, s2) \<Rightarrow> Blocks
                | (r, s2) \<Rightarrow> Returns (JList []))
           | (SendRaises, s1) \<Rightarrow> Returns (JList [])
           | (SendNeverReturns, s1) \<Rightarrow> Blocks))"

text \<open>\<open>request_chunks_from_peer(peer_ip, peer_port)\<close>.\<close>

definition request_chunks_from_peer ::
  "(bytes \<Rightarrow> json option) \<Rightarrow> connection option \<Rightarrow> json outcome" where
  "request_chunks_from_peer json_loads peer =
     (case peer of
        None \<Rightarrow> Returns (JList [])
      | Some c \<Rightarrow>
          (case sendall (socket_socket c) ''REQUEST_CHUNKS'' of
             (Sent, s1) \<Rightarrow>
               (case recv s1 of
                  (Got response, s2) \<Rightarrow>
                    (case json_loads response of
                       None \<Rightarrow> Returns (JList [])
                     | Some chunk_list \<Rightarrow> Returns chunk_list)
                | (NeverReturns, s2) \<Rightarrow> Blocks
                | (r, s2) \<Rightarrow> Returns (JList []))
           | (SendRaises, s1) \<Rightarrow> Returns (JList [])
           | (SendNeverReturns, s1) \<Rightarrow> Blocks))"

text \<open>The loop of \<open>download_chunk\<close> that receives the rest of a chunk: any exception
  leaves the loop.\<close>

function download_rest :: "sock \<Rightarrow> bytes \<Rightarrow> bytes outcome" where
  "download_rest s written =
     (case recv s of
        (Got data, s') \<Rightarrow> if data = [] then Returns written else download_rest s' (written @ data)
      | (NeverReturns, s') \<Rightarrow> Blocks
      | (r, s') \<Rightarrow> Returns written)"
  by pat_completeness auto
termination
  by (relation "measure (\<lambda>(s, written). length (incoming s))")
     (auto simp: recv_def split: list.splits recv_event.splits option.splits)

declare download_rest.simps [simp del]

text \<open>
  What \<open>download_chunk\<close> does once \<open>open(save_path, 'wb')\<close> has succeeded. \<open>created\<close> is
  the download directory with the new, empty file, \<open>removed\<close> the directory after
  \<open>os.remove(save_path)\<close>, and \<open>filled written\<close> the directory when the file is closed
  with the content \<open>written\<close>.
\<close>

definition download_body ::
  "sock \<Rightarrow> directory \<Rightarrow> directory \<Rightarrow> (bytes \<Rightarrow> directory) \<Rightarrow> (bool \<times> directory) outcome" where
  "download_body s created removed filled =
     (case recv s of
        (Got first_data, s1) \<Rightarrow>
          if first_data = ''NOT_FOUND'' then Returns (False, removed)
          else (case download_rest s1 first_data of
                  Blocks \<Rightarrow> Blocks
                | Returns written \<Rightarrow>
                    if written = [] then Returns (False, removed)
                    else Returns (True, filled written))
      | (NeverReturns, s1) \<Rightarrow> Blocks
      | (r, s1) \<Rightarrow> Returns (False, created))"

text \<open>
  \<open>download_chunk(peer_ip, peer_port, chunk_name)\<close> on the download directory: the
  returned flag and the directory left behind. The connection is \<open>None\<close> when \<open>connect\<close>
  raises. The name is joined onto the download directory as it is; a file written
  outside that directory is not part of the result.
\<close>

definition download_chunk ::
  "directory \<Rightarrow> (string \<Rightarrow> target) \<Rightarrow> connection option \<Rightarrow> string \<Rightarrow> (bool \<times> directory) outcome" where
  "download_chunk d fs conn name =
     (case conn of
        None \<Rightarrow> Returns (False, d)
      | Some c \<Rightarrow>
          (case sendall (socket_socket c) ''REQUEST_CHUNK'' of
             (Sent, s1) \<Rightarrow>
               (case recv s1 of
                  (Got ack, s2) \<Rightarrow>
                    if ack \<noteq> ''REQUEST_ACK'' then Returns (False, d)
                    else
                      (case locate fs name of
                         Undecodable \<Rightarrow> Returns (False, d)
                       | InFolder n \<Rightarrow>
                           (case sendall s2 name of
                              (Sent, s3) \<Rightarrow>
                                download_body s3 (write_file d n [])
                                  (remove_file (write_file d n []) n)
                                  (write_file (write_file d n []) n)
                            | (SendRaises, s3) \<Rightarrow> Returns (False, d)
                            | (SendNeverReturns, s3) \<Rightarrow> Blocks)
                       | Elsewhere f writable \<Rightarrow>
                           (case sendall s2 name of
                              (Sent, s3) \<Rightarrow>
                                if writable then download_body s3 d d (\<lambda>written. d)
                                else Returns (False, d)
                            | (SendRaises, s3) \<Rightarrow> Returns (False, d)
                            | (SendNeverReturns, s3) \<Rightarrow> Blocks))
                | (NeverReturns, s2) \<Rightarrow> Blocks
                | (r, s2) \<Rightarrow> Returns (False, d))
           | (SendRaises, s1) \<Rightarrow> Returns (False, d)
           | (SendNeverReturns, s1) \<Rightarrow> Blocks))"

section \<open>Auxiliary notions for the proofs\<close>

text \<open>The number a decimal numeral denotes, the inverse of \<open>str_nat\<close>.\<close>

definition digit_val :: "char \<Rightarrow> nat" where
  "digit_val c = of_char c - 48"

definition nat_of_str :: "string \<Rightarrow> nat" where
  "nat_of_str s = foldl (\<lambda>acc c. 10 * acc + digit_val c) 0 s"

text \<open>The fixed windows of a byte string, the last one possibly shorter.\<close>

function windows :: "nat \<Rightarrow> bytes \<Rightarrow> bytes list" where
  "windows s xs = (if take s xs = [] then [] else take s xs # windows s (drop s xs))"
  by pat_completeness auto
termination
  by (relation "measure (\<lambda>(s, xs). length xs)") auto

declare windows.simps [simp del]

text \<open>The metadata of a source split into windows of \<open>s\<close> bytes, and the chunk directory
  that holds its chunks and the metadata file.\<close>

definition split_metadata :: "source_file \<Rightarrow> nat \<Rightarrow> file_metadata" where
  "split_metadata f s =
     \<lparr>original_filename = src_basename f, extension = src_extension f,
      size_md = length (src_bytes f),
      chunk_count = (length (src_bytes f) + s - 1) div s\<rparr>"

definition split_dir :: "source_file \<Rightarrow> nat \<Rightarrow> directory" where
  "split_dir f s =
     map (\<lambda>j. (chunk_name j, take s (drop (j * s) (src_bytes f))))
       [0..<(length (src_bytes f) + s - 1) div s]
     @ [(''file_metadata.json'', json_dump (split_metadata f s))]"

text \<open>A stand-in for \<open>json.load\<close> that parses the one document \<open>json_dump m\<close>, to run
  \<open>reconstruct_file\<close> on concrete directories.\<close>

definition parse_only :: "file_metadata \<Rightarrow> bytes \<Rightarrow> file_metadata option" where
  "parse_only m text = (if text = json_dump m then Some m else None)"

text \<open>The name of the output file of \<open>reconstruct_file\<close>: the original file name of the
  metadata, and a generic name without metadata.\<close>

definition output_path :: "(bytes \<Rightarrow> file_metadata option) \<Rightarrow> directory \<Rightarrow> string" where
  "output_path json_load d =
     (case get_file_metadata json_load d of
        None \<Rightarrow> ''reconstructed_file''
      | Some m \<Rightarrow> original_filename m)"

text \<open>The bytes a receiving loop has taken in when it is left: the blocks that arrive
  before the first end of stream, error or silence.\<close>

fun received_prefix :: "recv_event list \<Rightarrow> bytes" where
  "received_prefix (Data b # evs) = (if b = [] then [] else b @ received_prefix evs)"
| "received_prefix evs = []"

text \<open>The other end of a connection answers every \<open>recv\<close> and \<open>sendall\<close>: it never
  stays silent and never stops reading. It may close, reset or fail at any point.\<close>

definition responsive :: "connection \<Rightarrow> bool" where
  "responsive c = (Silent \<notin> set (recvs c) \<and> Stalled \<notin> set (sends c))"

text \<open>A machine on which no name other than a plain one can be opened.\<close>

definition no_other_paths :: "string \<Rightarrow> target" where
  "no_other_paths name = Elsewhere Missing False"

text \<open>The other end that sends the given blocks, takes everything it is sent, and closes.\<close>

definition sends_blocks :: "bytes list \<Rightarrow> connection" where
  "sends_blocks bs = \<lparr>recvs = map Data bs, sends = [], shutdown_raises = False\<rparr>"

text \<open>The other end takes the first \<open>n\<close> byte strings that are sent to it.\<close>

definition takes :: "nat \<Rightarrow> connection \<Rightarrow> bool" where
  "takes n c = list_all (\<lambda>e. e = Taken) (take n (sends c))"

text \<open>A stand-in for \<open>json.loads\<close> that rejects every text, to run the queries on
  concrete connections.\<close>

definition rejects_all :: "bytes \<Rightarrow> json option" where
  "rejects_all text = None"

text \<open>The other end that accepts the connection, sends the given blocks and then
  nothing, without closing.\<close>

definition goes_silent_after :: "bytes list \<Rightarrow> connection" where
  "goes_silent_after bs = \<lparr>recvs = map Data bs @ [Silent], sends = [], shutdown_raises = False\<rparr>"

text \<open>The other end that takes the first \<open>n\<close> byte strings, sends the given blocks, and
  then stops reading.\<close>

definition stops_reading_after :: "nat \<Rightarrow> bytes list \<Rightarrow> connection" where
  "stops_reading_after n bs =
     \<lparr>recvs = map Data bs, sends = replicate n Taken @ [Stalled], shutdown_raises = False\<rparr>"

section \<open>Chunk names and windows\<close>

lemma digit_val_digit_char: "d < 10 \<Longrightarrow> digit_val (digit_char d) = d"
  by (simp add: digit_val_def digit_char_def)

lemma nat_of_str_str_nat: "nat_of_str (str_nat n) = n"
proof (induction n rule: str_nat.induct)
  case (1 n)
  show ?case
  proof (cases "n < 10")
    case True
    then show ?thesis
      by (subst str_nat.simps) (simp add: nat_of_str_def digit_val_digit_char)
  next
    case False
    with 1 have "nat_of_str (str_nat (n div 10)) = n div 10" by simp
    with False show ?thesis
      by (subst str_nat.simps) (simp add: nat_of_str_def digit_val_digit_char)
  qed
qed

lemma str_nat_inject: "str_nat i = str_nat j \<Longrightarrow> i = j"
  by (metis nat_of_str_str_nat)

lemma chunk_name_inject: "chunk_name i = chunk_name j \<longleftrightarrow> i = j"
  by (auto simp: chunk_name_def dest: str_nat_inject)

lemma inj_chunk_name: "inj chunk_name"
  by (simp add: inj_def chunk_name_inject)

lemma chunk_name_not_metadata: "chunk_name i \<noteq> ''file_metadata.json''"
  by (simp add: chunk_name_def)

lemma is_chunk_file_chunk_name: "is_chunk_file (chunk_name i)"
  by (simp add: is_chunk_file_def startswith_def endswith_def chunk_name_def)

lemma not_is_chunk_file_metadata: "\<not> is_chunk_file ''file_metadata.json''"
  by (simp add: is_chunk_file_def startswith_def)

lemma concat_windows: "0 < s \<Longrightarrow> concat (windows s xs) = xs"
proof (induction s xs rule: windows.induct)
  case (1 s xs)
  then show ?case by (subst windows.simps) auto
qed

lemma ceil_div_Suc:
  fixes n s :: nat
  assumes "0 < s" "0 < n"
  shows "(n + s - 1) div s = Suc ((n - 1) div s)"
proof -
  from assms(2) obtain m where n: "n = Suc m" by (cases n) auto
  have "(m + s) div s = Suc (m div s)" using assms(1) by (simp add: div_add_self2)
  then show ?thesis by (simp add: n)
qed

lemma windows_Nil: "windows s [] = []"
  by (subst windows.simps) simp

lemma windows_Cons:
  "0 < s \<Longrightarrow> xs \<noteq> [] \<Longrightarrow> windows s xs = take s xs # windows s (drop s xs)"
  by (subst windows.simps) simp

lemma length_windows: "0 < s \<Longrightarrow> length (windows s xs) = (length xs + s - 1) div s"
proof (induction s xs rule: windows.induct)
  case (1 s xs)
  show ?case
  proof (cases "xs = []")
    case True
    with 1(2) show ?thesis by (simp add: windows_Nil)
  next
    case False
    with 1 have IH: "length (windows s (drop s xs)) = (length xs - s + s - 1) div s"
      by simp
    have ceil: "(length xs + s - 1) div s = Suc ((length xs - 1) div s)"
      using False 1(2) by (intro ceil_div_Suc) simp_all
    show ?thesis
    proof (cases "s \<le> length xs")
      case True
      with IH False 1(2) ceil show ?thesis
        by (simp add: windows_Cons)
    next
      case False
      with IH \<open>xs \<noteq> []\<close> 1(2) ceil show ?thesis
        by (simp add: windows_Cons windows_Nil)
    qed
  qed
qed

lemma nth_windows:
  "0 < s \<Longrightarrow> j < length (windows s xs) \<Longrightarrow> windows s xs ! j = take s (drop (j * s) xs)"
proof (induction s xs arbitrary: j rule: windows.induct)
  case (1 s xs)
  from 1(3) have ne: "xs \<noteq> []" by (auto simp: windows_Nil)
  show ?case
  proof (cases j)
    case 0
    with ne 1(2) show ?thesis by (simp add: windows_Cons)
  next
    case (Suc k)
    with 1(3) ne 1(2) have "k < length (windows s (drop s xs))"
      by (simp add: windows_Cons)
    with 1(1)[of k] ne 1(2) have "windows s (drop s xs) ! k = take s (drop (k * s) (drop s xs))"
      by simp
    with Suc ne 1(2) show ?thesis
      by (simp add: windows_Cons add.commute)
  qed
qed

lemma windows_eq_map:
  assumes "0 < s"
  shows "windows s xs = map (\<lambda>j. take s (drop (j * s) xs)) [0..<(length xs + s - 1) div s]"
  by (rule nth_equalityI) (simp_all add: length_windows assms nth_windows)

lemma update_fresh: "k \<notin> fst ` set d \<Longrightarrow> AList.update k v d = d @ [(k, v)]"
  by (induction d) auto

lemma fold_write_fresh:
  "length ks = length cs \<Longrightarrow> distinct ks \<Longrightarrow> set ks \<inter> fst ` set d = {} \<Longrightarrow>
   fold (\<lambda>(n, c) acc. write_file acc n c) (zip ks cs) d = d @ zip ks cs"
proof (induction ks cs arbitrary: d rule: list_induct2)
  case Nil
  then show ?case by simp
next
  case (Cons k ks c cs)
  from Cons.prems have fresh: "k \<notin> fst ` set d" by auto
  have "set ks \<inter> fst ` set (d @ [(k, c)]) = {}"
    using Cons.prems by auto
  with Cons.IH[of "d @ [(k, c)]"] Cons.prems fresh show ?case
    by (simp add: write_file_def update_fresh)
qed

lemma split_loop_windows:
  "split_loop s rest i d chunks =
     (i + length (windows s rest),
      fold (\<lambda>(n, c) acc. write_file acc n c)
        (zip (map chunk_name [i..<i + length (windows s rest)]) (windows s rest)) d,
      chunks @ map chunk_name [i..<i + length (windows s rest)])"
proof (induction s rest i d chunks rule: split_loop.induct)
  case (1 s rest i d chunks)
  show ?case
  proof (cases "take s rest = []")
    case True
    then have "windows s rest = []" by (subst windows.simps) simp
    with True show ?thesis by (subst split_loop.simps) simp
  next
    case False
    then have w: "windows s rest = take s rest # windows s (drop s rest)"
      by (subst windows.simps) simp
    let ?m = "length (windows s (drop s rest))"
    have upt: "[i..<i + length (windows s rest)] = i # [Suc i..<Suc i + ?m]"
      unfolding w by (simp add: upt_conv_Cons del: upt_Suc)
    have IH: "split_loop s (drop s rest) (Suc i) (write_file d (chunk_name i) (take s rest))
                (chunks @ [chunk_name i]) =
        (Suc i + ?m,
         fold (\<lambda>(n, c) acc. write_file acc n c)
           (zip (map chunk_name [Suc i..<Suc i + ?m]) (windows s (drop s rest)))
           (write_file d (chunk_name i) (take s rest)),
         (chunks @ [chunk_name i]) @ map chunk_name [Suc i..<Suc i + ?m])"
      using False 1 by blast
    have "split_loop s rest i d chunks =
        split_loop s (drop s rest) (Suc i) (write_file d (chunk_name i) (take s rest))
          (chunks @ [chunk_name i])"
      using False by (subst split_loop.simps) simp
    also note IH
    finally show ?thesis
      unfolding upt by (simp add: w)
  qed
qed

lemma fold_remove:
  "fold (\<lambda>filename acc. remove_file acc filename) ks d = filter (\<lambda>p. fst p \<notin> set ks) d"
proof (induction ks arbitrary: d)
  case Nil
  then show ?case by simp
next
  case (Cons k ks)
  have "remove_file d k = filter (\<lambda>p. fst p \<noteq> k) d"
    by (induction d) (auto simp: remove_file_def)
  with Cons show ?case by (simp add: conj_commute)
qed

lemma clear_dir_empty: "clear_dir d = []"
  by (simp add: clear_dir_def fold_remove listdir_def)

lemma split_file_eq:
  assumes "0 < s"
  shows "split_file chunks_dir (Some f) s =
    (map chunk_name [0..<(length (src_bytes f) + s - 1) div s] @ [''file_metadata.json''],
     split_dir f s)"
proof -
  let ?k = "(length (src_bytes f) + s - 1) div s"
  let ?ws = "windows s (src_bytes f)"
  have d0: "(case chunks_dir of Some d \<Rightarrow> clear_dir d | None \<Rightarrow> []) = []"
    by (simp add: clear_dir_empty split: option.split)
  have len: "length ?ws = ?k" by (simp add: length_windows assms)
  have dist: "distinct (map chunk_name [0..<?k])"
    by (simp add: distinct_map inj_chunk_name inj_on_def chunk_name_inject)
  have loop: "split_loop s (src_bytes f) 0 [] [] =
      (?k, zip (map chunk_name [0..<?k]) ?ws, map chunk_name [0..<?k])"
    using fold_write_fresh[of "map chunk_name [0..<?k]" ?ws "[]"] dist len
    by (simp add: split_loop_windows)
  have zip: "zip (map chunk_name [0..<?k]) ?ws =
      map (\<lambda>j. (chunk_name j, take s (drop (j * s) (src_bytes f)))) [0..<?k]"
    by (simp add: windows_eq_map assms zip_map_map zip_same_conv_map)
  have fresh: "''file_metadata.json'' \<notin> fst ` set (zip (map chunk_name [0..<?k]) ?ws)"
  proof
    assume "''file_metadata.json'' \<in> fst ` set (zip (map chunk_name [0..<?k]) ?ws)"
    then obtain c where "(''file_metadata.json'', c) \<in> set (zip (map chunk_name [0..<?k]) ?ws)"
      by force
    then have "''file_metadata.json'' \<in> set (map chunk_name [0..<?k])"
      by (rule set_zip_leftD)
    then obtain j where "chunk_name j = ''file_metadata.json''" by auto
    then show False by (simp add: chunk_name_not_metadata)
  qed
  have d1: "write_file (zip (map chunk_name [0..<?k]) ?ws) ''file_metadata.json'' c
      = zip (map chunk_name [0..<?k]) ?ws @ [(''file_metadata.json'', c)]" for c
    unfolding write_file_def using fresh by (rule update_fresh)
  show ?thesis
    unfolding split_file_def d0 Let_def option.case loop prod.case split_dir_def split_metadata_def zip
    by (simp only: d1[unfolded zip] simp_thms)
qed

lemma ceil_div_bounds:
  fixes n s :: nat
  assumes "0 < s"
  shows "n \<le> ((n + s - 1) div s) * s" and "0 < n \<Longrightarrow> ((n + s - 1) div s - 1) * s < n"
proof -
  show "n \<le> ((n + s - 1) div s) * s"
  proof (cases "n = 0")
    case True then show ?thesis by simp
  next
    case False
    then have k: "(n + s - 1) div s = Suc ((n - 1) div s)" using assms by (intro ceil_div_Suc) simp_all
    have "n - 1 < Suc ((n - 1) div s) * s"
      using assms by (metis dividend_less_div_times mult.commute add.commute mult_Suc)
    with False show ?thesis unfolding k by linarith
  qed
next
  assume pos: "0 < n"
  then have k: "(n + s - 1) div s = Suc ((n - 1) div s)" using assms by (intro ceil_div_Suc) simp_all
  have "((n - 1) div s) * s \<le> n - 1" by simp
  with pos have "((n - 1) div s) * s < n" by linarith
  moreover have "Suc ((n - 1) div s) - 1 = (n - 1) div s" by simp
  ultimately show "((n + s - 1) div s - 1) * s < n" unfolding k by (simp only:)
qed

lemma ceil_div_real:
  fixes n s :: nat
  assumes "0 < s"
  shows "int ((n + s - 1) div s) = \<lceil>real n / real s\<rceil>"
proof (cases "n = 0")
  case True
  then show ?thesis using assms by simp
next
  case False
  define k where "k = (n + s - 1) div s"
  have "n \<le> k * s" unfolding k_def by (rule ceil_div_bounds(1)[OF assms])
  then have "real n \<le> real (k * s)" by (simp only: of_nat_le_iff)
  then have up: "real n \<le> real k * real s" by (simp only: of_nat_mult)
  from False have "(k - 1) * s < n" unfolding k_def by (intro ceil_div_bounds(2)[OF assms]) simp
  then have "real ((k - 1) * s) < real n" by (simp only: of_nat_less_iff)
  then have lo: "real (k - 1) * real s < real n" by (simp only: of_nat_mult)
  have kpos: "0 < k" unfolding k_def using ceil_div_Suc[OF assms, of n] False by simp
  have spos: "0 < real s" using assms by simp
  have "\<lceil>real n / real s\<rceil> = int k"
  proof (rule ceiling_unique)
    have "real_of_int (int k) - 1 = real (k - 1)" using kpos by (simp add: of_nat_diff)
    moreover have "real (k - 1) < real n / real s"
      using lo spos by (simp only: pos_less_divide_eq)
    ultimately show "real_of_int (int k) - 1 < real n / real s" by (simp only:)
    have "real n / real s \<le> real k" using up spos by (simp only: pos_divide_le_eq)
    then show "real n / real s \<le> real_of_int (int k)" by simp
  qed
  then show ?thesis unfolding k_def by simp
qed

lemma distinct_split_dir: "distinct (map fst (split_dir f s))"
proof -
  have "distinct (map chunk_name [0..<n])" for n
    by (simp add: distinct_map inj_on_def chunk_name_inject)
  moreover have "''file_metadata.json'' \<notin> chunk_name ` A" for A
  proof
    assume "''file_metadata.json'' \<in> chunk_name ` A"
    then obtain i where "''file_metadata.json'' = chunk_name i" by (rule imageE)
    then show False using chunk_name_not_metadata[of i] by simp
  qed
  ultimately show ?thesis
    by (simp add: split_dir_def comp_def)
qed

lemma listdir_split_dir:
  "listdir (split_dir f s) =
     map chunk_name [0..<(length (src_bytes f) + s - 1) div s] @ [''file_metadata.json'']"
  by (simp add: listdir_def split_dir_def comp_def)

lemma read_split_dir_chunk:
  assumes "j < (length (src_bytes f) + s - 1) div s"
  shows "read_file (split_dir f s) (chunk_name j) = Some (take s (drop (j * s) (src_bytes f)))"
proof -
  have "(chunk_name j, take s (drop (j * s) (src_bytes f))) \<in> set (split_dir f s)"
    using assms by (auto simp: split_dir_def)
  then show ?thesis
    unfolding read_file_def using distinct_split_dir by (simp add: map_of_eq_Some_iff)
qed

lemma read_split_dir_metadata:
  "read_file (split_dir f s) ''file_metadata.json'' = Some (json_dump (split_metadata f s))"
proof -
  have "(''file_metadata.json'', json_dump (split_metadata f s)) \<in> set (split_dir f s)"
    by (simp add: split_dir_def)
  then show ?thesis
    unfolding read_file_def using distinct_split_dir by (simp add: map_of_eq_Some_iff)
qed

section \<open>Chunk count of a split\<close>

text \<open>
  Claim C3. Splitting a source of \<open>N\<close> bytes with a chunk size \<open>s > 0\<close> returns, besides the
  metadata entry, exactly \<open>(N + s - 1) div s\<close> chunk entries, which is \<open>ceil(N / s)\<close> and is
  \<open>0\<close> for an empty source; they are \<open>chunk_0.part\<close>, \<open>chunk_1.part\<close>, ... in order, chunk
  \<open>j\<close> holds the bytes from \<open>j * s\<close> on, is never empty, has exactly \<open>s\<close> bytes unless it is
  the last one, and at most \<open>s\<close> then. The \<open>chunk_count\<close> written into the metadata file
  is the number of those chunk entries.
\<close>

theorem split_file_chunk_count:
  assumes "0 < s" and "split_file chunks_dir (Some f) s = (chunks, d)"
  shows "length (filter (\<lambda>name. name \<noteq> ''file_metadata.json'') chunks)
           = (length (src_bytes f) + s - 1) div s
       \<and> int ((length (src_bytes f) + s - 1) div s) = \<lceil>real (length (src_bytes f)) / real s\<rceil>
       \<and> (src_bytes f = [] \<longrightarrow> filter (\<lambda>name. name \<noteq> ''file_metadata.json'') chunks = [])
       \<and> filter (\<lambda>name. name \<noteq> ''file_metadata.json'') chunks
           = map chunk_name [0..<(length (src_bytes f) + s - 1) div s]
       \<and> (\<forall>j < (length (src_bytes f) + s - 1) div s.
             \<exists>c. read_file d (chunk_name j) = Some c
                \<and> c = take s (drop (j * s) (src_bytes f))
                \<and> 0 < length c
                \<and> (if Suc j < (length (src_bytes f) + s - 1) div s then length c = s else length c \<le> s))
       \<and> read_file d ''file_metadata.json''
           = Some (json_dump \<lparr>original_filename = src_basename f, extension = src_extension f,
                              size_md = length (src_bytes f),
                              chunk_count = length (filter (\<lambda>name. name \<noteq> ''file_metadata.json'') chunks)\<rparr>)"
proof -
  let ?n = "length (src_bytes f)"
  let ?k = "(?n + s - 1) div s"
  have "(chunks, d) = (map chunk_name [0..<?k] @ [''file_metadata.json''], split_dir f s)"
    unfolding assms(2)[symmetric] by (rule split_file_eq[OF assms(1)])
  then have chunks: "chunks = map chunk_name [0..<?k] @ [''file_metadata.json'']"
    and d: "d = split_dir f s" by blast+
  have flt: "filter (\<lambda>name. name \<noteq> ''file_metadata.json'') chunks = map chunk_name [0..<?k]"
    unfolding chunks by (simp add: filter_map comp_def chunk_name_not_metadata)
  have len: "length (filter (\<lambda>name. name \<noteq> ''file_metadata.json'') chunks) = ?k"
    unfolding flt by simp
  have empty: "src_bytes f = [] \<longrightarrow> filter (\<lambda>name. name \<noteq> ''file_metadata.json'') chunks = []"
  proof
    assume "src_bytes f = []"
    then have "?k = 0" using assms(1) by simp
    then show "filter (\<lambda>name. name \<noteq> ''file_metadata.json'') chunks = []"
      unfolding flt by simp
  qed
  have sizes: "\<forall>j < ?k. \<exists>c. read_file d (chunk_name j) = Some c
                \<and> c = take s (drop (j * s) (src_bytes f))
                \<and> 0 < length c
                \<and> (if Suc j < ?k then length c = s else length c \<le> s)"
  proof (intro allI impI)
    fix j assume j: "j < ?k"
    have up: "?n \<le> ?k * s" by (rule ceil_div_bounds(1)[OF assms(1)])
    have npos: "0 < ?n" using j assms(1) by (cases "?n = 0") simp_all
    have lo: "(?k - 1) * s < ?n" by (rule ceil_div_bounds(2)[OF assms(1) npos])
    from j have "j \<le> ?k - 1" by linarith
    then have "j * s \<le> (?k - 1) * s" by (rule mult_le_mono1)
    with lo have js: "j * s < ?n" by linarith
    have full: "Suc j < ?k \<Longrightarrow> Suc j * s \<le> ?n"
    proof -
      assume "Suc j < ?k"
      then have "Suc j \<le> ?k - 1" by linarith
      then have "Suc j * s \<le> (?k - 1) * s" by (rule mult_le_mono1)
      with lo show ?thesis by linarith
    qed
    show "\<exists>c. read_file d (chunk_name j) = Some c
                \<and> c = take s (drop (j * s) (src_bytes f))
                \<and> 0 < length c
                \<and> (if Suc j < ?k then length c = s else length c \<le> s)"
    proof (intro exI conjI)
      show "read_file d (chunk_name j) = Some (take s (drop (j * s) (src_bytes f)))"
        unfolding d by (rule read_split_dir_chunk[OF j])
      show "take s (drop (j * s) (src_bytes f)) = take s (drop (j * s) (src_bytes f))" ..
      show "0 < length (take s (drop (j * s) (src_bytes f)))"
        using js assms(1) by simp
      show "if Suc j < ?k then length (take s (drop (j * s) (src_bytes f))) = s
            else length (take s (drop (j * s) (src_bytes f))) \<le> s"
      proof (cases "Suc j < ?k")
        case True
        from full[OF True] have "s \<le> length (src_bytes f) - j * s" by simp
        with True show ?thesis by simp
      next
        case False
        then show ?thesis by simp
      qed
    qed
  qed
  have meta: "read_file d ''file_metadata.json''
           = Some (json_dump \<lparr>original_filename = src_basename f, extension = src_extension f,
                              size_md = ?n,
                              chunk_count = length (filter (\<lambda>name. name \<noteq> ''file_metadata.json'') chunks)\<rparr>)"
    unfolding len d by (simp add: read_split_dir_metadata split_metadata_def)
  have ceil: "int ?k = \<lceil>real ?n / real s\<rceil>" by (rule ceil_div_real[OF assms(1)])
  show ?thesis
    by (intro conjI) (rule len, rule ceil, rule empty, rule flt, rule sizes, rule meta)
qed

theorem split_file_chunk_count_witness:
  "0 < (4::nat)
   \<and> length (filter (\<lambda>name. name \<noteq> ''file_metadata.json'')
         (fst (split_file None
            (Some \<lparr>src_basename = ''a.txt'', src_extension = ''.txt'', src_bytes = ''hello world''\<rparr>) 4))) = 3
   \<and> read_file (snd (split_file None
            (Some \<lparr>src_basename = ''a.txt'', src_extension = ''.txt'', src_bytes = ''hello world''\<rparr>) 4))
         (chunk_name 2) = Some ''rld''"
proof -
  let ?f = "\<lparr>src_basename = ''a.txt'', src_extension = ''.txt'', src_bytes = ''hello world''\<rparr>"
  let ?r = "split_file None (Some ?f) 4"
  have h: "?r = (fst ?r, snd ?r)" by simp
  have pos: "0 < (4::nat)" by simp
  note inst = split_file_chunk_count[OF pos h]
  from inst have len: "length (filter (\<lambda>name. name \<noteq> ''file_metadata.json'') (fst ?r))
      = (length (src_bytes ?f) + 4 - 1) div 4"
    by blast
  from inst have rd: "\<forall>j < (length (src_bytes ?f) + 4 - 1) div 4.
      \<exists>c. read_file (snd ?r) (chunk_name j) = Some c
        \<and> c = take 4 (drop (j * 4) (src_bytes ?f))
        \<and> 0 < length c
        \<and> (if Suc j < (length (src_bytes ?f) + 4 - 1) div 4 then length c = 4 else length c \<le> 4)"
    by blast
  have "(2::nat) < (length (src_bytes ?f) + 4 - 1) div 4" by simp
  with rd obtain c where "read_file (snd ?r) (chunk_name 2) = Some c"
    and "c = take 4 (drop (2 * 4) (src_bytes ?f))" by blast
  then have "read_file (snd ?r) (chunk_name 2) = Some ''rld''" by simp
  moreover from len have "length (filter (\<lambda>name. name \<noteq> ''file_metadata.json'') (fst ?r)) = 3"
    by simp
  ultimately show ?thesis by simp
qed

section \<open>The registry of the tracker\<close>

lemma register_not_get_peers: "startswith request ''REGISTER_PEER'' \<Longrightarrow> request \<noteq> ''GET_PEERS''"
  by (auto simp: startswith_def)

lemma split_space1_no_space: "CHR '' '' \<notin> set s \<Longrightarrow> split_space1 s = [s]"
  by (simp add: split_space1_def)

text \<open>
  Claim C10. A request that starts with \<open>REGISTER_PEER\<close> and has no space left after
  \<open>strip()\<close>, such as the bare \<open>REGISTER_PEER\<close>, makes the unpacking of the split raise
  \<open>ValueError\<close>; nothing catches it, so the accept loop is left and the requests that
  follow are never served.
\<close>

theorem register_without_space_raises:
  assumes "startswith request ''REGISTER_PEER''" and "CHR '' '' \<notin> set (strip request)"
  shows "tracker_step peers request = Inl ValueError
       \<and> start_tracker peers (request # rest) = Inl ValueError"
proof -
  have step: "tracker_step peers request = Inl ValueError"
    using assms register_not_get_peers[OF assms(1)]
    by (simp add: tracker_step_def split_space1_no_space)
  then show ?thesis by simp
qed

theorem register_without_space_raises_witness:
  "startswith ''REGISTER_PEER'' ''REGISTER_PEER''
   \<and> CHR '' '' \<notin> set (strip ''REGISTER_PEER'')
   \<and> tracker_step [''127.0.0.1:5000''] ''REGISTER_PEER'' = Inl ValueError
   \<and> start_tracker [''127.0.0.1:5000''] [''REGISTER_PEER'', ''GET_PEERS''] = Inl ValueError"
proof -
  have a: "startswith ''REGISTER_PEER'' ''REGISTER_PEER''" by (simp add: startswith_def)
  have b: "CHR '' '' \<notin> set (strip ''REGISTER_PEER'')" by (simp add: strip_def isspace_def)
  from a b register_without_space_raises[OF a b, of "[''127.0.0.1:5000'']" "[''GET_PEERS'']"]
  show ?thesis by simp
qed

lemma register_peer_present: "addr \<in> set peers \<Longrightarrow> register_peer peers addr = peers"
  by (simp add: register_peer_def)

lemma register_peer_member: "addr \<in> set (register_peer peers addr)"
  by (simp add: register_peer_def)

lemma register_peer_distinct: "distinct peers \<Longrightarrow> distinct (register_peer peers addr)"
  by (simp add: register_peer_def)

lemma register_peer_prefix: "\<exists>new. register_peer peers addr = peers @ new"
  by (simp add: register_peer_def)

lemma tracker_step_cases:
  assumes "tracker_step peers request = Inr (peers1, reply1)"
  shows "(peers1 = peers \<and> (request = ''GET_PEERS'' \<or> \<not> startswith request ''REGISTER_PEER''))
       \<or> (request \<noteq> ''GET_PEERS'' \<and> startswith request ''REGISTER_PEER'' \<and> reply1 = []
          \<and> (\<exists>cmd addr. split_space1 (strip request) = [cmd, addr] \<and> peers1 = register_peer peers addr))"
  using assms
  by (auto simp: tracker_step_def split: if_splits list.splits)

lemma tracker_step_distinct:
  "tracker_step peers request = Inr (peers1, reply1) \<Longrightarrow> distinct peers \<Longrightarrow> distinct peers1"
  by (drule tracker_step_cases) (auto simp: register_peer_distinct)

lemma start_tracker_distinct:
  "start_tracker peers requests = Inr peers1 \<Longrightarrow> distinct peers \<Longrightarrow> distinct peers1"
proof (induction requests arbitrary: peers)
  case Nil
  then show ?case by simp
next
  case (Cons request rest)
  then show ?case
    by (auto split: sum.splits dest: tracker_step_distinct)
qed

text \<open>
  Claim C4. Registration is idempotent: when a request has been handled, handling the same
  request again changes nothing; registering an address that is already listed leaves the
  list as it is; a step only ever appends, so the list never gets shorter and the
  addresses keep their order of first registration; and a list without duplicates stays
  without duplicates, so the registry, which starts empty, never holds an address twice.
\<close>

theorem register_idempotent:
  assumes "tracker_step peers request = Inr (peers1, reply1)"
  shows "tracker_step peers1 request = Inr (peers1, reply1)
       \<and> (\<forall>cmd addr. split_space1 (strip request) = [cmd, addr] \<and> addr \<in> set peers
             \<and> startswith request ''REGISTER_PEER'' \<longrightarrow> peers1 = peers)
       \<and> length peers \<le> length peers1
       \<and> take (length peers) peers1 = peers
       \<and> (distinct peers \<longrightarrow> distinct peers1)
       \<and> (\<forall>requests registered. start_tracker [] requests = Inr registered \<longrightarrow> distinct registered)"
proof -
  from tracker_step_cases[OF assms]
  have again: "tracker_step peers1 request = Inr (peers1, reply1)"
  proof
    assume "peers1 = peers \<and> (request = ''GET_PEERS'' \<or> \<not> startswith request ''REGISTER_PEER'')"
    with assms show ?thesis by simp
  next
    assume reg: "request \<noteq> ''GET_PEERS'' \<and> startswith request ''REGISTER_PEER'' \<and> reply1 = []
          \<and> (\<exists>cmd addr. split_space1 (strip request) = [cmd, addr] \<and> peers1 = register_peer peers addr)"
    then obtain cmd addr where sp: "split_space1 (strip request) = [cmd, addr]"
      and p1: "peers1 = register_peer peers addr" by blast
    have "register_peer peers1 addr = peers1"
      unfolding p1 by (rule register_peer_present[OF register_peer_member])
    with reg sp show ?thesis by (simp add: tracker_step_def)
  qed
  have present: "\<forall>cmd addr. split_space1 (strip request) = [cmd, addr] \<and> addr \<in> set peers
             \<and> startswith request ''REGISTER_PEER'' \<longrightarrow> peers1 = peers"
    using tracker_step_cases[OF assms] by (auto simp: register_peer_present)
  from tracker_step_cases[OF assms] register_peer_prefix
  obtain new where pre: "peers1 = peers @ new" by (metis append_Nil2)
  have dist: "distinct peers \<longrightarrow> distinct peers1"
    using tracker_step_distinct[OF assms] by blast
  have runs: "\<forall>requests registered. start_tracker [] requests = Inr registered \<longrightarrow> distinct registered"
    using start_tracker_distinct[of "[]"] by simp
  from again present pre dist runs show ?thesis by simp
qed

theorem register_idempotent_witness:
  "tracker_step [''127.0.0.1:5000''] ''REGISTER_PEER 127.0.0.1:5001''
     = Inr ([''127.0.0.1:5000'', ''127.0.0.1:5001''], [])
   \<and> tracker_step [''127.0.0.1:5000'', ''127.0.0.1:5001''] ''REGISTER_PEER 127.0.0.1:5001''
     = Inr ([''127.0.0.1:5000'', ''127.0.0.1:5001''], [])"
proof -
  have first: "tracker_step [''127.0.0.1:5000''] ''REGISTER_PEER 127.0.0.1:5001''
     = Inr ([''127.0.0.1:5000'', ''127.0.0.1:5001''], [])"
    by (simp add: tracker_step_def startswith_def strip_def isspace_def split_space1_def
        register_peer_def)
  from register_idempotent[OF first] first show ?thesis by blast
qed

section \<open>The peer: pulls and pushes\<close>

lemma read_write_same: "read_file (write_file d name content) name = Some content"
  by (simp add: read_file_def write_file_def update_conv')

lemma read_write_other: "other \<noteq> name \<Longrightarrow> read_file (write_file d name content) other = read_file d other"
  by (simp add: read_file_def write_file_def update_conv')

lemma listdir_write: "set (listdir (write_file d name content)) = insert name (set (listdir d))"
  by (simp add: listdir_def write_file_def update_keys image_iff) (auto simp: dom_update)

lemma write_write: "write_file (write_file d name old) name content = write_file d name content"
  by (simp add: write_file_def)

lemma receive_data_written:
  "snd (receive_data s written) = written @ received_prefix (incoming s)"
proof (induction "incoming s" arbitrary: s written)
  case Nil
  from Nil[symmetric] show ?case by (subst receive_data.simps) (simp add: recv_def)
next
  case (Cons e evs)
  note inc = Cons.hyps(2)[symmetric]
  show ?case
  proof (cases e)
    case (Data b)
    have "snd (receive_data (s\<lparr>incoming := evs\<rparr>) (written @ b))
        = (written @ b) @ received_prefix (incoming (s\<lparr>incoming := evs\<rparr>))"
      by (rule Cons.hyps(1)) simp
    with inc Data show ?thesis by (subst receive_data.simps) (simp add: recv_def)
  next
    case ConnReset
    with inc show ?thesis by (subst receive_data.simps) (simp add: recv_def)
  next
    case OtherError
    with inc show ?thesis by (subst receive_data.simps) (simp add: recv_def)
  next
    case Silent
    with inc show ?thesis by (subst receive_data.simps) (simp add: recv_def split: option.splits)
  qed
qed

lemma receive_data_returns:
  "Silent \<notin> set (incoming s) \<Longrightarrow> fst (receive_data s written) \<noteq> LoopBlocks"
proof (induction "incoming s" arbitrary: s written)
  case Nil
  from Nil(1)[symmetric] show ?case by (subst receive_data.simps) (simp add: recv_def)
next
  case (Cons e evs)
  note inc = Cons.hyps(2)[symmetric]
  show ?case
  proof (cases e)
    case (Data b)
    have "fst (receive_data (s\<lparr>incoming := evs\<rparr>) (written @ b)) \<noteq> LoopBlocks"
      by (rule Cons.hyps(1)) (use Cons.prems inc in simp_all)
    with inc Data show ?thesis by (subst receive_data.simps) (simp add: recv_def)
  next
    case ConnReset
    with inc show ?thesis by (subst receive_data.simps) (simp add: recv_def)
  next
    case OtherError
    with inc show ?thesis by (subst receive_data.simps) (simp add: recv_def)
  next
    case Silent
    with inc Cons.prems show ?thesis by simp
  qed
qed

text \<open>The socket of a connection after its first receive events have been read.\<close>

lemma recv_socket_Data:
  "recv (socket_socket \<lparr>recvs = Data b # evs, sends = snds, shutdown_raises = sh\<rparr>)
     = (Got b, socket_socket \<lparr>recvs = evs, sends = snds, shutdown_raises = sh\<rparr>)"
  by (simp add: recv_def socket_socket_def)

lemma plain_name_locate: "plain_name name \<Longrightarrow> locate fs name = InFolder name"
  by (simp add: locate_def)

text \<open>
  Claim C8. A pull of a chunk name that the peer does not hold, the name being a plain file
  name so that it means an entry of the folder, is answered with the acknowledgement and
  then \<open>NOT_FOUND\<close> when the requester takes the two messages; the handler returns, so
  \<open>handle_client\<close> closes the connection. Whatever the requester does on its side, a
  handler that returns leaves the store as it was, so that every later connection finds
  the peer as before, and has sent nothing but these two messages; and the handler
  returns unless the requester stops reading.
\<close>

theorem pull_miss_not_found:
  assumes "plain_name name"
      and "lookup store name = Missing"
  shows "(list_all (\<lambda>e. e = Taken) (take 2 snds) \<longrightarrow>
            handle_client store fs
              \<lparr>recvs = Data ''REQUEST_CHUNK'' # Data name # rest, sends = snds, shutdown_raises = sh\<rparr>
              = Returns (store, [''REQUEST_ACK'', ''NOT_FOUND'']))
       \<and> (\<forall>store' replies.
            handle_client store fs
              \<lparr>recvs = Data ''REQUEST_CHUNK'' # Data name # rest, sends = snds, shutdown_raises = sh\<rparr>
              = Returns (store', replies)
            \<longrightarrow> store' = store \<and> set replies \<subseteq> {''REQUEST_ACK'', ''NOT_FOUND''})
       \<and> (Stalled \<notin> set snds \<longrightarrow>
            handle_client store fs
              \<lparr>recvs = Data ''REQUEST_CHUNK'' # Data name # rest, sends = snds, shutdown_raises = sh\<rparr>
              \<noteq> Blocks)"
proof -
  let ?c = "\<lparr>recvs = Data ''REQUEST_CHUNK'' # Data name # rest, sends = snds, shutdown_raises = sh\<rparr>"
  have hc: "handle_client store fs ?c
      = (case sendall (socket_socket \<lparr>recvs = Data name # rest, sends = snds, shutdown_raises = sh\<rparr>) ''REQUEST_ACK'' of
           (Sent, s1) \<Rightarrow>
             (case recv s1 of
                (Got name, s2) \<Rightarrow>
                  (case (case locate fs name of
                           Undecodable \<Rightarrow> Unreadable
                         | InFolder n \<Rightarrow> lookup store n
                         | Elsewhere f writable \<Rightarrow> f) of
                     Missing \<Rightarrow> send_or_else store s2 ''NOT_FOUND'' ''NOT_FOUND''
                   | Unreadable \<Rightarrow> send_quietly store s2 ''NOT_FOUND''
                   | Holds data \<Rightarrow>
                       if data = [] then send_or_else store s2 ''NOT_FOUND'' ''NOT_FOUND''
                       else send_or_else store s2 data ''NOT_FOUND'')
              | (NeverReturns, s2) \<Rightarrow> Blocks
              | (r, s2) \<Rightarrow> send_quietly store s2 ''NOT_FOUND'')
         | (SendRaises, s1) \<Rightarrow> send_quietly store s1 ''NOT_FOUND''
         | (SendNeverReturns, s1) \<Rightarrow> Blocks)"
    by (simp add: handle_client_def recv_socket_Data handle_request_specific_chunk_def)
  have a: "list_all (\<lambda>e. e = Taken) (take 2 snds) \<longrightarrow>
            handle_client store fs ?c = Returns (store, [''REQUEST_ACK'', ''NOT_FOUND''])"
    unfolding hc using assms
    by (auto simp: sendall_def recv_def socket_socket_def plain_name_locate send_or_else_def
        split: list.splits send_event.splits)
  have b: "\<forall>store' replies. handle_client store fs ?c = Returns (store', replies)
            \<longrightarrow> store' = store \<and> set replies \<subseteq> {''REQUEST_ACK'', ''NOT_FOUND''}"
    unfolding hc using assms
    by (auto simp: sendall_def recv_def socket_socket_def plain_name_locate send_or_else_def
        send_quietly_def split: list.splits send_event.splits)
  have c: "Stalled \<notin> set snds \<longrightarrow> handle_client store fs ?c \<noteq> Blocks"
    unfolding hc using assms
    by (auto simp: sendall_def recv_def socket_socket_def plain_name_locate send_or_else_def
        send_quietly_def split: list.splits send_event.splits)
  from a b c show ?thesis by blast
qed


theorem pull_miss_not_found_witness:
  "plain_name ''chunk_7.part''
   \<and> lookup (Some [(''chunk_0.part'', ''abc'')]) ''chunk_7.part'' = Missing
   \<and> handle_client (Some [(''chunk_0.part'', ''abc'')]) no_other_paths
         \<lparr>recvs = [Data ''REQUEST_CHUNK'', Data ''chunk_7.part''], sends = [], shutdown_raises = False\<rparr>
       = Returns (Some [(''chunk_0.part'', ''abc'')], [''REQUEST_ACK'', ''NOT_FOUND''])"
proof -
  have p: "plain_name ''chunk_7.part''" by (simp add: plain_name_def)
  have l: "lookup (Some [(''chunk_0.part'', ''abc'')]) ''chunk_7.part'' = Missing"
    by (simp add: lookup_def read_file_def)
  from pull_miss_not_found[OF p l, of "[]" no_other_paths "[]" False] p l show ?thesis by simp
qed

text \<open>
  Claim C7, as amended. A push is not atomic. For a pushed name that is a plain file name:
  when the handler has sent its acknowledgement and returns, however the stream ended
  (closed, reset, or failed), the store holds under the pushed name exactly the bytes
  received up to that point and every other entry is as before; the name is in the chunk
  listing even when no byte arrived, and a pull of it is served those bytes, or
  \<open>NOT_FOUND\<close> when there are none.
\<close>

theorem push_keeps_received_bytes:
  assumes "plain_name name"
      and "handle_client store fs
             \<lparr>recvs = Data ''READY_TO_SEND'' # Data name # evs, sends = snds, shutdown_raises = sh\<rparr>
           = Returns (store', [''READY_ACK''])"
  shows "\<exists>d'. store' = Some d'
           \<and> read_file d' name = Some (received_prefix evs)
           \<and> name \<in> set (listdir d')
           \<and> (\<forall>other. other \<noteq> name \<longrightarrow> lookup store' other = lookup store other)
           \<and> handle_client store' fs (sends_blocks [''REQUEST_CHUNK'', name])
               = Returns (store', [''REQUEST_ACK'',
                    if received_prefix evs = [] then ''NOT_FOUND'' else received_prefix evs])
           \<and> handle_client store' fs (sends_blocks [''REQUEST_CHUNKS''])
               = Returns (store', [json_dumps_list (listdir d')])"
proof -
  let ?d = "case store of None \<Rightarrow> [] | Some d \<Rightarrow> d"
  let ?s = "socket_socket \<lparr>recvs = Data name # evs, sends = snds, shutdown_raises = sh\<rparr>"
  from assms(2) have hic: "handle_incoming_chunk store fs ?s = Returns (store', [''READY_ACK''])"
    by (simp add: handle_client_def recv_socket_Data)
  obtain r s1 where sa: "sendall ?s ''READY_ACK'' = (r, s1)" by (cases "sendall ?s ''READY_ACK''")
  have r: "r = Sent"
  proof (cases r)
    case Sent
    then show ?thesis .
  next
    case SendRaises
    with sa have "sent s1 = []"
      by (auto simp: sendall_def socket_socket_def split: list.splits send_event.splits)
    with hic sa SendRaises show ?thesis by (simp add: handle_incoming_chunk_def)
  next
    case SendNeverReturns
    with hic sa show ?thesis by (simp add: handle_incoming_chunk_def)
  qed
  with sa have s1: "incoming s1 = Data name # evs"
    by (auto simp: sendall_def socket_socket_def split: list.splits send_event.splits)
  then have rv: "recv s1 = (Got name, s1\<lparr>incoming := evs\<rparr>)" by (simp add: recv_def)
  let ?s2 = "s1\<lparr>incoming := evs\<rparr>"
  obtain e written where rd: "receive_data ?s2 [] = (e, written)"
    by (cases "receive_data ?s2 []")
  with receive_data_written[of ?s2 "[]"] have written: "written = received_prefix evs" by simp
  from hic sa r rv rd assms(1) have e: "e \<noteq> LoopBlocks"
    by (auto simp: handle_incoming_chunk_def plain_name_locate Let_def)
  with hic sa r rv rd assms(1) have st: "store' = Some (write_file ?d name written)"
    by (cases e) (auto simp: handle_incoming_chunk_def plain_name_locate Let_def write_write)
  have others: "\<forall>other. other \<noteq> name \<longrightarrow> lookup store' other = lookup store other"
  proof -
    have "read_file [] other = None" for other by (simp add: read_file_def)
    then show ?thesis
      unfolding st by (cases store) (simp_all add: lookup_def read_write_other)
  qed
  have pull: "handle_client store' fs (sends_blocks [''REQUEST_CHUNK'', name])
               = Returns (store', [''REQUEST_ACK'',
                    if received_prefix evs = [] then ''NOT_FOUND'' else received_prefix evs])"
    unfolding st written using assms(1)
    by (simp add: handle_client_def handle_request_specific_chunk_def sends_blocks_def
        recv_def sendall_def socket_socket_def plain_name_locate lookup_def read_write_same
        send_or_else_def)
  have listing: "handle_client store' fs (sends_blocks [''REQUEST_CHUNKS''])
      = Returns (store', [json_dumps_list (listdir (write_file ?d name written))])"
    unfolding st
    by (simp add: handle_client_def handle_request_chunks_def sends_blocks_def
        recv_def sendall_def socket_socket_def send_or_else_def)
  from others pull listing show ?thesis
    unfolding st written by (simp add: read_write_same listdir_write)
qed

theorem push_keeps_received_bytes_witness:
  "plain_name ''chunk_0.part''
   \<and> handle_client (Some []) no_other_paths
         \<lparr>recvs = [Data ''READY_TO_SEND'', Data ''chunk_0.part'', Data ''abc'', ConnReset],
          sends = [], shutdown_raises = False\<rparr>
       = Returns (Some [(''chunk_0.part'', ''abc'')], [''READY_ACK''])
   \<and> read_file [(''chunk_0.part'', ''abc'')] ''chunk_0.part'' = Some (received_prefix [Data ''abc'', ConnReset])
   \<and> handle_client (Some [(''chunk_0.part'', ''abc'')]) no_other_paths
         (sends_blocks [''REQUEST_CHUNK'', ''chunk_0.part''])
       = Returns (Some [(''chunk_0.part'', ''abc'')], [''REQUEST_ACK'', ''abc''])"
proof -
  have p: "plain_name ''chunk_0.part''" by (simp add: plain_name_def)
  have h: "handle_client (Some []) no_other_paths
         \<lparr>recvs = [Data ''READY_TO_SEND'', Data ''chunk_0.part'', Data ''abc'', ConnReset],
          sends = [], shutdown_raises = False\<rparr>
       = Returns (Some [(''chunk_0.part'', ''abc'')], [''READY_ACK''])"
    using p
    by (simp add: handle_client_def handle_incoming_chunk_def recv_def sendall_def socket_socket_def
        plain_name_locate receive_data.simps write_file_def)
  from push_keeps_received_bytes[OF p h] p h show ?thesis by simp
qed

theorem partial_push_is_exposed:
  "handle_client (Some []) no_other_paths
       \<lparr>recvs = [Data ''READY_TO_SEND'', Data ''chunk_0.part'', Data ''abc'', ConnReset],
        sends = [], shutdown_raises = False\<rparr>
     = Returns (Some [(''chunk_0.part'', ''abc'')], [''READY_ACK''])
   \<and> handle_client (Some [(''chunk_0.part'', ''abc'')]) no_other_paths
       (sends_blocks [''REQUEST_CHUNK'', ''chunk_0.part''])
     = Returns (Some [(''chunk_0.part'', ''abc'')], [''REQUEST_ACK'', ''abc''])
   \<and> handle_client (Some [(''chunk_0.part'', ''abc'')]) no_other_paths (sends_blocks [''REQUEST_CHUNKS''])
     = Returns (Some [(''chunk_0.part'', ''abc'')], [json_dumps_list [''chunk_0.part'']])
   \<and> handle_client (Some []) no_other_paths (sends_blocks [''READY_TO_SEND'', ''chunk_1.part''])
     = Returns (Some [(''chunk_1.part'', [])], [''READY_ACK''])
   \<and> handle_client (Some [(''chunk_1.part'', [])]) no_other_paths (sends_blocks [''REQUEST_CHUNKS''])
     = Returns (Some [(''chunk_1.part'', [])], [json_dumps_list [''chunk_1.part'']])"
proof -
  have p0: "locate no_other_paths ''chunk_0.part'' = InFolder ''chunk_0.part''"
    by (simp add: locate_def plain_name_def)
  have p1: "locate no_other_paths ''chunk_1.part'' = InFolder ''chunk_1.part''"
    by (simp add: locate_def plain_name_def)
  show ?thesis
    by (simp add: handle_client_def handle_incoming_chunk_def handle_request_specific_chunk_def
        handle_request_chunks_def sends_blocks_def recv_def sendall_def socket_socket_def
        send_or_else_def p0 p1 lookup_def receive_data.simps write_file_def read_file_def
        listdir_def)
qed

section \<open>Blocking socket operations\<close>

lemma recv_live:
  assumes "recv s = (r, s')" and "Silent \<notin> set (incoming s)"
  shows "r \<noteq> NeverReturns \<and> Silent \<notin> set (incoming s') \<and> outgoing s' = outgoing s"
  using assms
  by (auto simp: recv_def split: list.splits recv_event.splits option.splits)

lemma sendall_live:
  assumes "sendall s b = (r, s')" and "Stalled \<notin> set (outgoing s)"
  shows "r \<noteq> SendNeverReturns \<and> Stalled \<notin> set (outgoing s') \<and> incoming s' = incoming s"
  using assms
  by (auto simp: sendall_def split: list.splits send_event.splits option.splits)

lemma download_rest_returns:
  "Silent \<notin> set (incoming s) \<Longrightarrow> download_rest s written \<noteq> Blocks"
proof (induction "incoming s" arbitrary: s written)
  case Nil
  from Nil(1)[symmetric] show ?case by (subst download_rest.simps) (simp add: recv_def)
next
  case (Cons e evs)
  note inc = Cons.hyps(2)[symmetric]
  show ?case
  proof (cases e)
    case (Data b)
    have "download_rest (s\<lparr>incoming := evs\<rparr>) (written @ b) \<noteq> Blocks"
      by (rule Cons.hyps(1)) (use Cons.prems inc in simp_all)
    with inc Data show ?thesis by (subst download_rest.simps) (simp add: recv_def)
  next
    case ConnReset
    with inc show ?thesis by (subst download_rest.simps) (simp add: recv_def)
  next
    case OtherError
    with inc show ?thesis by (subst download_rest.simps) (simp add: recv_def)
  next
    case Silent
    with inc Cons.prems show ?thesis by simp
  qed
qed

lemma download_body_returns:
  assumes "Silent \<notin> set (incoming s)"
  shows "download_body s created removed filled \<noteq> Blocks"
proof -
  obtain r s1 where rv: "recv s = (r, s1)" by (cases "recv s")
  from recv_live[OF rv assms] have r: "r \<noteq> NeverReturns" and s1: "Silent \<notin> set (incoming s1)"
    by simp_all
  from download_rest_returns[OF s1] rv r show ?thesis
    by (cases r) (auto simp: download_body_def split: outcome.splits)
qed

lemma socket_live:
  "responsive c \<Longrightarrow> Silent \<notin> set (incoming (socket_socket c)) \<and> Stalled \<notin> set (outgoing (socket_socket c))"
  by (simp add: responsive_def socket_socket_def)

lemma get_peers_returns: "responsive c \<Longrightarrow> get_peers json_loads (Some c) \<noteq> Blocks"
proof -
  assume "responsive c"
  note live = socket_live[OF this]
  obtain r1 s1 where sa: "sendall (socket_socket c) ''GET_PEERS'' = (r1, s1)"
    by (cases "sendall (socket_socket c) ''GET_PEERS''")
  from sendall_live[OF sa] live have r1: "r1 \<noteq> SendNeverReturns" and l1: "Silent \<notin> set (incoming s1)"
    by simp_all
  obtain r2 s2 where rv: "recv s1 = (r2, s2)" by (cases "recv s1")
  from recv_live[OF rv l1] have r2: "r2 \<noteq> NeverReturns" by simp
  from sa r1 rv r2 show ?thesis
    by (cases r1; cases r2) (auto simp: get_peers_def split: option.splits)
qed

lemma get_peer_list_returns: "responsive c \<Longrightarrow> get_peer_list json_loads (Some c) \<noteq> Blocks"
proof -
  assume "responsive c"
  note live = socket_live[OF this]
  obtain r1 s1 where sa: "sendall (socket_socket c) ''GET_PEERS'' = (r1, s1)"
    by (cases "sendall (socket_socket c) ''GET_PEERS''")
  from sendall_live[OF sa] live have r1: "r1 \<noteq> SendNeverReturns" and l1: "Silent \<notin> set (incoming s1)"
    by simp_all
  obtain r2 s2 where rv: "recv s1 = (r2, s2)" by (cases "recv s1")
  from recv_live[OF rv l1] have r2: "r2 \<noteq> NeverReturns" by simp
  from sa r1 rv r2 show ?thesis
    by (cases r1; cases r2) (auto simp: get_peer_list_def split: option.splits)
qed

lemma request_chunks_from_peer_returns:
  "responsive c \<Longrightarrow> request_chunks_from_peer json_loads (Some c) \<noteq> Blocks"
proof -
  assume "responsive c"
  note live = socket_live[OF this]
  obtain r1 s1 where sa: "sendall (socket_socket c) ''REQUEST_CHUNKS'' = (r1, s1)"
    by (cases "sendall (socket_socket c) ''REQUEST_CHUNKS''")
  from sendall_live[OF sa] live have r1: "r1 \<noteq> SendNeverReturns" and l1: "Silent \<notin> set (incoming s1)"
    by simp_all
  obtain r2 s2 where rv: "recv s1 = (r2, s2)" by (cases "recv s1")
  from recv_live[OF rv l1] have r2: "r2 \<noteq> NeverReturns" by simp
  from sa r1 rv r2 show ?thesis
    by (cases r1; cases r2) (auto simp: request_chunks_from_peer_def split: option.splits)
qed

lemma send_one_returns: "responsive c \<Longrightarrow> send_one (Some c) chunk_file data \<noteq> Blocks"
proof -
  assume "responsive c"
  note live = socket_live[OF this]
  obtain r1 s1 where sa: "sendall (socket_socket c) ''READY_TO_SEND'' = (r1, s1)"
    by (cases "sendall (socket_socket c) ''READY_TO_SEND''")
  from sendall_live[OF sa] live have r1: "r1 \<noteq> SendNeverReturns"
    and l1: "Silent \<notin> set (incoming s1)" and o1: "Stalled \<notin> set (outgoing s1)"
    by simp_all
  obtain r2 s2 where rv: "recv s1 = (r2, s2)" by (cases "recv s1")
  from recv_live[OF rv l1] o1 have r2: "r2 \<noteq> NeverReturns" and o2: "Stalled \<notin> set (outgoing s2)"
    by simp_all
  obtain r3 s3 where sb: "sendall s2 chunk_file = (r3, s3)" by (cases "sendall s2 chunk_file")
  from sendall_live[OF sb o2] have r3: "r3 \<noteq> SendNeverReturns" and o3: "Stalled \<notin> set (outgoing s3)"
    by simp_all
  obtain r4 s4 where sc: "sendall s3 data = (r4, s4)" by (cases "sendall s3 data")
  from sendall_live[OF sc o3] have r4: "r4 \<noteq> SendNeverReturns" by simp
  from sa r1 rv r2 sb r3 sc r4 show ?thesis
    by (cases r1; cases r2; cases r3; cases r4) (auto simp: send_one_def)
qed

lemma download_chunk_returns: "responsive c \<Longrightarrow> download_chunk d fs (Some c) name \<noteq> Blocks"
proof -
  assume "responsive c"
  note live = socket_live[OF this]
  obtain r1 s1 where sa: "sendall (socket_socket c) ''REQUEST_CHUNK'' = (r1, s1)"
    by (cases "sendall (socket_socket c) ''REQUEST_CHUNK''")
  from sendall_live[OF sa] live have r1: "r1 \<noteq> SendNeverReturns"
    and l1: "Silent \<notin> set (incoming s1)" and o1: "Stalled \<notin> set (outgoing s1)"
    by simp_all
  obtain r2 s2 where rv: "recv s1 = (r2, s2)" by (cases "recv s1")
  from recv_live[OF rv l1] o1 have r2: "r2 \<noteq> NeverReturns"
    and l2: "Silent \<notin> set (incoming s2)" and o2: "Stalled \<notin> set (outgoing s2)"
    by simp_all
  obtain r3 s3 where sb: "sendall s2 name = (r3, s3)" by (cases "sendall s2 name")
  from sendall_live[OF sb o2] l2 have r3: "r3 \<noteq> SendNeverReturns" and l3: "Silent \<notin> set (incoming s3)"
    by simp_all
  note body = download_body_returns[OF l3]
  from sa r1 rv r2 sb r3 body show ?thesis
    by (cases r1; cases r2; cases r3) (auto simp: download_chunk_def split: target.splits)
qed

lemma send_loop_blocks:
  "send_loop d net chunks acc = Blocks
     \<longleftrightarrow> (\<exists>f \<in> set chunks. \<exists>data. read_file d f = Some data \<and> data \<noteq> []
            \<and> send_one (net f) f data = Blocks)"
proof (induction chunks arbitrary: acc)
  case Nil
  then show ?case by simp
next
  case (Cons f rest)
  show ?case
  proof (cases "read_file d f")
    case None
    with Cons show ?thesis by simp
  next
    case (Some data)
    show ?thesis
    proof (cases "data = []")
      case True
      with Some Cons show ?thesis by simp
    next
      case False
      with Some Cons show ?thesis
        by (cases "send_one (net f) f data") auto
    qed
  qed
qed

lemma set_remove1_append:
  "m \<in> set xs \<Longrightarrow> set (remove1 m xs @ [m]) = set xs"
  by (induction xs) auto

lemma set_send_order: "set (send_order d) = set (listdir d)"
proof (cases "''file_metadata.json'' \<in> set (sort (listdir d))")
  case True
  from set_remove1_append[OF True] True show ?thesis
    by (simp add: send_order_def Let_def)
next
  case False
  then show ?thesis by (simp add: send_order_def Let_def)
qed

lemma send_chunks_to_peer_blocks:
  "send_chunks_to_peer (Some d) net = Blocks
     \<longleftrightarrow> (\<exists>f \<in> set (listdir d). \<exists>data. read_file d f = Some data \<and> data \<noteq> []
            \<and> send_one (net f) f data = Blocks)"
proof -
  have "send_chunks_to_peer (Some d) net = Blocks \<longleftrightarrow> send_loop d net (send_order d) [] = Blocks"
    by (auto simp: send_chunks_to_peer_def Let_def split: outcome.splits)
  then show ?thesis
    unfolding send_loop_blocks set_send_order .
qed


lemma download_rest_blocks:
  "incoming s = map Data bs @ Silent # evs \<Longrightarrow> timeout s = None \<Longrightarrow> [] \<notin> set bs
     \<Longrightarrow> download_rest s written = Blocks"
proof (induction bs arbitrary: s written)
  case Nil
  then show ?case by (subst download_rest.simps) (simp add: recv_def)
next
  case (Cons b bs)
  have "download_rest (s\<lparr>incoming := map Data bs @ Silent # evs\<rparr>) (written @ b) = Blocks"
    by (rule Cons.IH) (use Cons.prems in simp_all)
  with Cons.prems show ?case by (subst download_rest.simps) (auto simp: recv_def)
qed

lemma sendall_first_stalled:
  "sends c = Stalled # snds \<Longrightarrow> sendall (socket_socket c) b = (SendNeverReturns, socket_socket c)"
  by (simp add: sendall_def socket_socket_def)

lemma sendall_takes:
  "takes (Suc n) c \<Longrightarrow>
     sendall (socket_socket c) b
       = (Sent, (socket_socket c)\<lparr>outgoing := tl (sends c), sent := [b]\<rparr>)"
  by (cases "sends c"; cases "hd (sends c)")
     (auto simp: takes_def sendall_def socket_socket_def)

text \<open>
  Claim C9, as amended. Nothing bounds the time a network operation of the orchestrators
  takes. The tracker query of the sender and of the receiver, the chunk enumeration, the
  download of a chunk and the push of a chunk return when \<open>connect\<close> fails, and whenever
  the other end answers, closes, resets or fails at each \<open>recv\<close> and takes or refuses the
  bytes at each \<open>sendall\<close>. Each of them blocks for ever when its request finds no room
  because the other end does not read, and when the other end takes the request and then
  sends nothing. A download of a plain chunk name also blocks when the peer acknowledges
  and then leaves the name without room, or sends nothing more, or goes silent after a
  part of the chunk; the push of a chunk also blocks when the peer acknowledges and then
  leaves the name or the data without room. And \<open>send_chunks_to_peer\<close> blocks exactly when
  the push of one of the files of the chunk directory that are not empty blocks.
\<close>

theorem silent_peer_blocks_orchestrator:
  "(responsive c \<longrightarrow>
       get_peers json_loads (Some c) \<noteq> Blocks
     \<and> get_peer_list json_loads (Some c) \<noteq> Blocks
     \<and> request_chunks_from_peer json_loads (Some c) \<noteq> Blocks
     \<and> download_chunk d fs (Some c) name \<noteq> Blocks
     \<and> send_one (Some c) chunk_file data \<noteq> Blocks)
   \<and> get_peers json_loads None \<noteq> Blocks
   \<and> get_peer_list json_loads None \<noteq> Blocks
   \<and> request_chunks_from_peer json_loads None \<noteq> Blocks
   \<and> download_chunk d fs None name \<noteq> Blocks
   \<and> send_one None chunk_file data \<noteq> Blocks
   \<and> (sends c = Stalled # snds \<longrightarrow>
         get_peers json_loads (Some c) = Blocks
       \<and> get_peer_list json_loads (Some c) = Blocks
       \<and> request_chunks_from_peer json_loads (Some c) = Blocks
       \<and> download_chunk d fs (Some c) name = Blocks
       \<and> send_one (Some c) chunk_file data = Blocks)
   \<and> (takes 1 c \<and> recvs c = Silent # evs \<longrightarrow>
         get_peers json_loads (Some c) = Blocks
       \<and> get_peer_list json_loads (Some c) = Blocks
       \<and> request_chunks_from_peer json_loads (Some c) = Blocks
       \<and> download_chunk d fs (Some c) name = Blocks
       \<and> send_one (Some c) chunk_file data = Blocks)
   \<and> (plain_name name \<and> recvs c = Data ''REQUEST_ACK'' # evs \<and> sends c = Taken # Stalled # snds
        \<longrightarrow> download_chunk d fs (Some c) name = Blocks)
   \<and> (plain_name name \<and> takes 2 c
        \<and> recvs c = Data ''REQUEST_ACK'' # map Data blocks @ Silent # evs
        \<and> [] \<notin> set blocks \<and> ''NOT_FOUND'' \<notin> set (take 1 blocks)
        \<longrightarrow> download_chunk d fs (Some c) name = Blocks)
   \<and> (recvs c = Data ''READY_ACK'' # evs
        \<and> (sends c = Taken # Stalled # snds \<or> sends c = Taken # Taken # Stalled # snds)
        \<longrightarrow> send_one (Some c) chunk_file data = Blocks)
   \<and> (send_chunks_to_peer (Some chunks) net = Blocks
        \<longleftrightarrow> (\<exists>f \<in> set (listdir chunks). \<exists>content. read_file chunks f = Some content \<and> content \<noteq> []
               \<and> send_one (net f) f content = Blocks))"
proof -
  have a: "responsive c \<longrightarrow>
       get_peers json_loads (Some c) \<noteq> Blocks
     \<and> get_peer_list json_loads (Some c) \<noteq> Blocks
     \<and> request_chunks_from_peer json_loads (Some c) \<noteq> Blocks
     \<and> download_chunk d fs (Some c) name \<noteq> Blocks
     \<and> send_one (Some c) chunk_file data \<noteq> Blocks"
    using get_peers_returns get_peer_list_returns request_chunks_from_peer_returns
      download_chunk_returns send_one_returns by blast
  have b: "get_peers json_loads None \<noteq> Blocks" "get_peer_list json_loads None \<noteq> Blocks"
    "request_chunks_from_peer json_loads None \<noteq> Blocks"
    "download_chunk d fs None name \<noteq> Blocks" "send_one None chunk_file data \<noteq> Blocks"
    by (simp_all add: get_peers_def get_peer_list_def request_chunks_from_peer_def
        download_chunk_def send_one_def)
  have c: "sends c = Stalled # snds \<longrightarrow>
         get_peers json_loads (Some c) = Blocks
       \<and> get_peer_list json_loads (Some c) = Blocks
       \<and> request_chunks_from_peer json_loads (Some c) = Blocks
       \<and> download_chunk d fs (Some c) name = Blocks
       \<and> send_one (Some c) chunk_file data = Blocks"
    by (simp add: get_peers_def get_peer_list_def request_chunks_from_peer_def
        download_chunk_def send_one_def sendall_first_stalled)
  have e: "takes 1 c \<and> recvs c = Silent # evs \<longrightarrow>
         get_peers json_loads (Some c) = Blocks
       \<and> get_peer_list json_loads (Some c) = Blocks
       \<and> request_chunks_from_peer json_loads (Some c) = Blocks
       \<and> download_chunk d fs (Some c) name = Blocks
       \<and> send_one (Some c) chunk_file data = Blocks"
  proof (intro impI)
    assume h: "takes 1 c \<and> recvs c = Silent # evs"
    then have t: "takes (Suc 0) c" by simp
    have rv: "recv ((socket_socket c)\<lparr>outgoing := tl (sends c), sent := [b]\<rparr>)
        = (NeverReturns, (socket_socket c)\<lparr>outgoing := tl (sends c), sent := [b]\<rparr>)" for b
      using h by (simp add: recv_def socket_socket_def)
    show "get_peers json_loads (Some c) = Blocks
       \<and> get_peer_list json_loads (Some c) = Blocks
       \<and> request_chunks_from_peer json_loads (Some c) = Blocks
       \<and> download_chunk d fs (Some c) name = Blocks
       \<and> send_one (Some c) chunk_file data = Blocks"
      by (simp add: get_peers_def get_peer_list_def request_chunks_from_peer_def
          download_chunk_def send_one_def sendall_takes[OF t] rv)
  qed
  have f: "plain_name name \<and> recvs c = Data ''REQUEST_ACK'' # evs \<and> sends c = Taken # Stalled # snds
        \<longrightarrow> download_chunk d fs (Some c) name = Blocks"
    by (simp add: download_chunk_def sendall_def recv_def socket_socket_def locate_def)
  have g: "plain_name name \<and> takes 2 c
        \<and> recvs c = Data ''REQUEST_ACK'' # map Data blocks @ Silent # evs
        \<and> [] \<notin> set blocks \<and> ''NOT_FOUND'' \<notin> set (take 1 blocks)
        \<longrightarrow> download_chunk d fs (Some c) name = Blocks"
  proof (intro impI)
    assume h: "plain_name name \<and> takes 2 c
        \<and> recvs c = Data ''REQUEST_ACK'' # map Data blocks @ Silent # evs
        \<and> [] \<notin> set blocks \<and> ''NOT_FOUND'' \<notin> set (take 1 blocks)"
    then have t1: "takes (Suc 0) c"
      by (cases "sends c") (simp_all add: takes_def)
    let ?s1 = "(socket_socket c)\<lparr>outgoing := tl (sends c), sent := [''REQUEST_CHUNK'']\<rparr>"
    let ?s2 = "?s1\<lparr>incoming := map Data blocks @ Silent # evs\<rparr>"
    have rv: "recv ?s1 = (Got ''REQUEST_ACK'', ?s2)"
      using h by (simp add: recv_def socket_socket_def)
    obtain s3 where sb: "sendall ?s2 name = (Sent, s3)"
      and i3: "incoming s3 = map Data blocks @ Silent # evs" and t3: "timeout s3 = None"
      using h
      by (cases "sends c"; cases "tl (sends c)"; cases "hd (tl (sends c))")
         (auto simp: takes_def sendall_def socket_socket_def)
    have body: "download_body s3 created removed filled = Blocks" for created removed filled
    proof (cases blocks)
      case Nil
      with i3 t3 show ?thesis by (simp add: download_body_def recv_def)
    next
      case (Cons b bs)
      with h have b: "b \<noteq> ''NOT_FOUND''" and bs: "[] \<notin> set bs" by auto
      have "download_rest (s3\<lparr>incoming := map Data bs @ Silent # evs\<rparr>) b = Blocks"
        by (rule download_rest_blocks[OF _ _ bs]) (use t3 in simp_all)
      with Cons i3 b show ?thesis by (simp add: download_body_def recv_def)
    qed
    from h show "download_chunk d fs (Some c) name = Blocks"
      by (simp add: download_chunk_def sendall_takes[OF t1] rv sb body locate_def)
  qed
  have i: "recvs c = Data ''READY_ACK'' # evs
        \<and> (sends c = Taken # Stalled # snds \<or> sends c = Taken # Taken # Stalled # snds)
        \<longrightarrow> send_one (Some c) chunk_file data = Blocks"
    by (auto simp: send_one_def sendall_def recv_def socket_socket_def)
  note j = send_chunks_to_peer_blocks[of chunks net]
  from a b c e f g i j show ?thesis by blast
qed


theorem silent_peer_blocks_orchestrator_witness:
  "responsive (sends_blocks [''REQUEST_ACK'', ''abc''])
   \<and> download_chunk [] no_other_paths (Some (sends_blocks [''REQUEST_ACK'', ''abc''])) ''chunk_0.part''
       = Returns (True, [(''chunk_0.part'', ''abc'')])
   \<and> sends (stops_reading_after 0 []) = [Stalled]
   \<and> get_peer_list rejects_all (Some (stops_reading_after 0 [])) = Blocks
   \<and> takes 1 (goes_silent_after [])
   \<and> recvs (goes_silent_after []) = [Silent]
   \<and> request_chunks_from_peer rejects_all (Some (goes_silent_after [])) = Blocks
   \<and> plain_name ''chunk_0.part''
   \<and> takes 2 (goes_silent_after [''REQUEST_ACK'', ''ab''])
   \<and> download_chunk [] no_other_paths (Some (goes_silent_after [''REQUEST_ACK'', ''ab''])) ''chunk_0.part''
       = Blocks
   \<and> send_one (Some (stops_reading_after 2 [''READY_ACK''])) ''chunk_0.part'' ''abc'' = Blocks
   \<and> send_chunks_to_peer (Some [(''chunk_0.part'', ''abc'')]) (\<lambda>f. Some (goes_silent_after [])) = Blocks"
proof -
  have r: "responsive (sends_blocks [''REQUEST_ACK'', ''abc''])"
    by (simp add: responsive_def sends_blocks_def)
  have p: "plain_name ''chunk_0.part''" by (simp add: plain_name_def)
  have dl: "download_chunk [] no_other_paths (Some (sends_blocks [''REQUEST_ACK'', ''abc''])) ''chunk_0.part''
       = Returns (True, [(''chunk_0.part'', ''abc'')])"
    using p
    by (simp add: download_chunk_def download_body_def download_rest.simps sends_blocks_def
        sendall_def recv_def socket_socket_def locate_def write_file_def)
  have st: "sends (stops_reading_after 0 []) = [Stalled]" by (simp add: stops_reading_after_def)
  have t1: "takes 1 (goes_silent_after [])" by (simp add: takes_def goes_silent_after_def)
  have rs: "recvs (goes_silent_after []) = [Silent]" by (simp add: goes_silent_after_def)
  have t2: "takes 2 (goes_silent_after [''REQUEST_ACK'', ''ab''])"
    by (simp add: takes_def goes_silent_after_def)
  have r2: "recvs (goes_silent_after [''REQUEST_ACK'', ''ab''])
      = Data ''REQUEST_ACK'' # map Data [''ab''] @ Silent # []"
    by (simp add: goes_silent_after_def)
  have r3: "recvs (stops_reading_after 2 [''READY_ACK'']) = Data ''READY_ACK'' # []"
    by (simp add: stops_reading_after_def)
  have s3: "sends (stops_reading_after 2 [''READY_ACK'']) = Taken # Taken # Stalled # []"
    by (simp add: stops_reading_after_def numeral_2_eq_2)
  have c0: "read_file [(''chunk_0.part'', ''abc'')] ''chunk_0.part'' = Some ''abc''"
    by (simp add: read_file_def)
  have l0: "''chunk_0.part'' \<in> set (listdir [(''chunk_0.part'', ''abc'')])"
    by (simp add: listdir_def)
  note a = silent_peer_blocks_orchestrator
    [of "stops_reading_after 0 []" rejects_all "[]" no_other_paths "''chunk_0.part''"
        "''chunk_0.part''" "''abc''" "[]" "[]" "[]" "[]" "\<lambda>f. None"]
  note b = silent_peer_blocks_orchestrator
    [of "goes_silent_after []" rejects_all "[]" no_other_paths "''chunk_0.part''"
        "''chunk_0.part''" "''abc''" "[]" "[]" "[]" "[(''chunk_0.part'', ''abc'')]"
        "\<lambda>f. Some (goes_silent_after [])"]
  note c = silent_peer_blocks_orchestrator
    [of "goes_silent_after [''REQUEST_ACK'', ''ab'']" rejects_all "[]" no_other_paths
        "''chunk_0.part''" "''chunk_0.part''" "''abc''" "[]" "[]" "[''ab'']" "[]" "\<lambda>f. None"]
  note e = silent_peer_blocks_orchestrator
    [of "stops_reading_after 2 [''READY_ACK'']" rejects_all "[]" no_other_paths
        "''chunk_0.part''" "''chunk_0.part''" "''abc''" "[]" "[]" "[]" "[]" "\<lambda>f. None"]
  from a st have g1: "get_peer_list rejects_all (Some (stops_reading_after 0 [])) = Blocks" by blast
  from b t1 rs have g2: "request_chunks_from_peer rejects_all (Some (goes_silent_after [])) = Blocks"
    and so: "send_one (Some (goes_silent_after [])) ''chunk_0.part'' ''abc'' = Blocks"
    by blast+
  from b so c0 l0
  have g5: "send_chunks_to_peer (Some [(''chunk_0.part'', ''abc'')]) (\<lambda>f. Some (goes_silent_after [])) = Blocks"
    by blast
  have nb: "[] \<notin> set [''ab''] \<and> ''NOT_FOUND'' \<notin> set (take 1 [''ab''])" by simp
  from c p t2 r2 nb
  have g3: "download_chunk [] no_other_paths (Some (goes_silent_after [''REQUEST_ACK'', ''ab''])) ''chunk_0.part'' = Blocks"
    by blast
  from e r3 s3 have g4: "send_one (Some (stops_reading_after 2 [''READY_ACK''])) ''chunk_0.part'' ''abc'' = Blocks"
    by blast
  from r dl st g1 t1 rs g2 p t2 g3 g4 g5 show ?thesis by blast
qed

theorem download_blocks_on_silent_peer:
  "download_chunk [] no_other_paths (Some (goes_silent_after [''REQUEST_ACK''])) ''chunk_0.part'' = Blocks
   \<and> download_chunk [] no_other_paths (Some (goes_silent_after [])) ''chunk_0.part'' = Blocks
   \<and> send_one (Some (goes_silent_after [])) ''chunk_0.part'' ''abc'' = Blocks
   \<and> get_peers rejects_all (Some (goes_silent_after [])) = Blocks
   \<and> get_peer_list rejects_all (Some (goes_silent_after [])) = Blocks
   \<and> request_chunks_from_peer rejects_all (Some (goes_silent_after [])) = Blocks"
proof -
  have p: "locate no_other_paths ''chunk_0.part'' = InFolder ''chunk_0.part''"
    by (simp add: locate_def plain_name_def)
  show ?thesis
    by (simp add: download_chunk_def download_body_def send_one_def get_peers_def
        get_peer_list_def request_chunks_from_peer_def goes_silent_after_def
        sendall_def recv_def socket_socket_def p)
qed

section \<open>An empty source\<close>

lemma json_dump_nonempty: "json_dump m \<noteq> []"
  by (simp add: json_dump_def)

lemma split_file_empty:
  "split_file chunks_dir (Some \<lparr>src_basename = n, src_extension = e, src_bytes = []\<rparr>) s
     = ([''file_metadata.json''],
        [(''file_metadata.json'',
          json_dump \<lparr>original_filename = n, extension = e, size_md = 0, chunk_count = 0\<rparr>)])"
proof -
  have d0: "(case chunks_dir of Some d \<Rightarrow> clear_dir d | None \<Rightarrow> []) = []"
    by (simp add: clear_dir_empty split: option.split)
  have loop: "split_loop s [] 0 [] [] = (0, [], [])"
    by (subst split_loop.simps) simp
  show ?thesis
    by (simp add: split_file_def d0 loop write_file_def)
qed

text \<open>
  Claim C5. For a source of zero bytes \<open>split_file\<close> writes no chunk and the chunk count
  \<open>0\<close>, but the list it returns holds the metadata entry, so the sender does not stop: with
  one registered peer that acknowledges, the main program pushes the metadata file to it
  and completes.
\<close>

theorem empty_source_is_distributed:
  "split_file chunks_dir (Some \<lparr>src_basename = n, src_extension = e, src_bytes = []\<rparr>) (1024 * 1024)
     = ([''file_metadata.json''],
        [(''file_metadata.json'',
          json_dump \<lparr>original_filename = n, extension = e, size_md = 0, chunk_count = 0\<rparr>)])
   \<and> alice_main chunks_dir (Some \<lparr>src_basename = n, src_extension = e, src_bytes = []\<rparr>) False
        [''127.0.0.1:5000''] (\<lambda>peer chunk_file. Some (sends_blocks [''READY_ACK'']))
     = Returns (Complete [(''127.0.0.1:5000'', ''file_metadata.json'', True)])"
  by (simp add: split_file_empty alice_main_def send_chunks_to_peer_def send_order_def
      listdir_def read_file_def json_dump_nonempty send_one_def sends_blocks_def
      sendall_def recv_def socket_socket_def)

section \<open>The order of reconstruction\<close>

lemma str_nat_digit: "i < 10 \<Longrightarrow> str_nat i = [digit_char i]"
  by (subst str_nat.simps) simp

lemma digit_char_less: "i < j \<Longrightarrow> j < 10 \<Longrightarrow> digit_char i < digit_char j"
  by (simp add: digit_char_def less_char_def)

lemma chunk_name_less: "i < j \<Longrightarrow> j < 10 \<Longrightarrow> chunk_name i < chunk_name j"
  by (simp add: chunk_name_def str_nat_digit digit_char_less)

lemma sorted_chunk_names: "k \<le> 10 \<Longrightarrow> sorted (map chunk_name [0..<k])"
proof -
  assume k: "k \<le> 10"
  have "chunk_name i \<le> chunk_name j" if "i < j" "j < k" for i j
    using chunk_name_less[of i j] that k by simp
  then show ?thesis
    by (simp add: sorted_iff_nth_mono_less)
qed

lemma copy_chunks_concat:
  "copy_chunks d names out
     = out @ concat (map (\<lambda>name. case read_file d name of Some content \<Rightarrow> content | None \<Rightarrow> []) names)"
  by (induction names arbitrary: out) simp_all

lemma sort_twelve_chunk_names:
  "sort (map chunk_name [0..<12]) = map chunk_name [0, 1, 10, 11, 2, 3, 4, 5, 6, 7, 8, 9]"
  by code_simp

lemma read_chunk_table:
  "j \<in> set xs \<Longrightarrow> read_file (map (\<lambda>i. (chunk_name i, p i)) xs @ rest) (chunk_name j) = Some (p j)"
  by (induction xs) (auto simp: read_file_def chunk_name_inject)


lemma keys_chunk_table: "listdir (map (\<lambda>i. (chunk_name i, p i)) xs) = map chunk_name xs"
  by (simp add: listdir_def comp_def)

lemma filter_chunk_names: "filter is_chunk_file (map chunk_name xs) = map chunk_name xs"
  by (induction xs) (simp_all add: is_chunk_file_chunk_name)

lemma read_chunk_table_miss:
  "(\<And>i. name \<noteq> chunk_name i) \<Longrightarrow> read_file (map (\<lambda>i. (chunk_name i, p i)) xs) name = None"
  by (induction xs) (auto simp: read_file_def)

lemma not_chunk_reconstructed: "''reconstructed_file'' \<noteq> chunk_name i"
  by (simp add: chunk_name_def)

lemma write_fresh: "read_file d name = None \<Longrightarrow> write_file d name content = d @ [(name, content)]"
  unfolding write_file_def read_file_def
  by (rule update_fresh) (simp add: map_of_eq_None_iff)

lemma write_over_last:
  "read_file d name = None \<Longrightarrow> write_file (d @ [(name, old)]) name content = d @ [(name, content)]"
proof (induction d)
  case Nil
  then show ?case by (simp add: write_file_def)
next
  case (Cons a d)
  then show ?case
    by (cases a) (auto simp: write_file_def read_file_def split: if_splits)
qed

text \<open>
  Claim C2. The claim asks for the numeric order \<open>0, 1, 2, ..., 11\<close>. The code sorts the
  names as strings: for twelve chunks named \<open>chunk_0.part\<close> to \<open>chunk_11.part\<close>, whatever
  their payloads, \<open>reconstruct_file\<close> writes the payloads in the order
  \<open>0, 1, 10, 11, 2, 3, ..., 9\<close>.
\<close>

theorem twelve_chunks_lexicographic:
  "reconstruct_file json_load (map (\<lambda>i. (chunk_name i, payload i)) [0..<12])
     = (concat (map payload [0, 1, 10, 11, 2, 3, 4, 5, 6, 7, 8, 9]) \<noteq> [],
        map (\<lambda>i. (chunk_name i, payload i)) [0..<12]
          @ [(''reconstructed_file'', concat (map payload [0, 1, 10, 11, 2, 3, 4, 5, 6, 7, 8, 9]))])"
proof -
  let ?d = "map (\<lambda>i. (chunk_name i, payload i)) [0..<12]"
  let ?order = "[0, 1, 10, 11, 2, 3, 4, 5, 6, 7, 8, 9] :: nat list"
  have nometa: "read_file ?d ''file_metadata.json'' = None"
    by (rule read_chunk_table_miss) (simp add: chunk_name_not_metadata[symmetric])
  then have meta: "get_file_metadata json_load ?d = None"
    by (simp add: get_file_metadata_def)
  have files: "sort (filter is_chunk_file (listdir ?d)) = map chunk_name ?order"
    unfolding keys_chunk_table filter_chunk_names by (rule sort_twelve_chunk_names)
  have noout: "read_file ?d ''reconstructed_file'' = None"
    by (rule read_chunk_table_miss) (rule not_chunk_reconstructed)
  have d1: "write_file ?d ''reconstructed_file'' [] = ?d @ [(''reconstructed_file'', [])]"
    by (rule write_fresh[OF noout])
  have rd: "read_file (?d @ [(''reconstructed_file'', [])]) (chunk_name j) = Some (payload j)"
    if "j \<in> set ?order" for j
    by (rule read_chunk_table) (use that in auto)
  have copy: "copy_chunks (?d @ [(''reconstructed_file'', [])]) (map chunk_name ?order) []
      = concat (map payload ?order)"
    unfolding copy_chunks_concat by (simp add: rd del: upt_Suc)
  have d2: "write_file (?d @ [(''reconstructed_file'', [])]) ''reconstructed_file'' out
      = ?d @ [(''reconstructed_file'', out)]" for out
    by (rule write_over_last[OF noout])
  have ne: "map chunk_name ?order \<noteq> []" by simp
  show ?thesis
    unfolding reconstruct_file_def meta files Let_def option.case d1 copy d2
    using ne by (simp only: if_False)
qed

section \<open>What reconstruction checks\<close>

lemma read_listed: "name \<in> set (listdir d) \<Longrightarrow> \<exists>content. read_file d name = Some content"
  unfolding listdir_def read_file_def
  by (metis map_of_eq_None_iff not_Some_eq set_map)

lemma reconstruct_file_unfold:
  "reconstruct_file json_load d =
     (if filter is_chunk_file (listdir d) = [] then (False, d)
      else (copy_chunks (write_file d (output_path json_load d) [])
              (sort (filter is_chunk_file (listdir d))) [] \<noteq> [],
            write_file (write_file d (output_path json_load d) []) (output_path json_load d)
              (copy_chunks (write_file d (output_path json_load d) [])
                 (sort (filter is_chunk_file (listdir d))) [])))"
proof -
  have "sort xs = [] \<longleftrightarrow> xs = []" for xs :: "string list"
    by (metis length_sort length_0_conv)
  then show ?thesis
    by (simp add: reconstruct_file_def output_path_def Let_def)
qed

lemma copy_chunks_present:
  assumes "\<not> is_chunk_file out_name"
  shows "copy_chunks (write_file d out_name []) (sort (filter is_chunk_file (listdir d))) []
           = concat (map (\<lambda>name. case read_file d name of Some content \<Rightarrow> content | None \<Rightarrow> [])
                      (sort (filter is_chunk_file (listdir d))))"
proof -
  have "read_file (write_file d out_name []) name = read_file d name"
    if "name \<in> set (sort (filter is_chunk_file (listdir d)))" for name
  proof -
    from that have "is_chunk_file name" by simp
    with assms have "name \<noteq> out_name" by auto
    then show ?thesis by (rule read_write_other)
  qed
  then have "map (\<lambda>name. case read_file (write_file d out_name []) name of Some content \<Rightarrow> content | None \<Rightarrow> [])
               (sort (filter is_chunk_file (listdir d)))
           = map (\<lambda>name. case read_file d name of Some content \<Rightarrow> content | None \<Rightarrow> [])
               (sort (filter is_chunk_file (listdir d)))"
    by (intro map_cong[OF refl]) (simp only:)
  then show ?thesis
    unfolding copy_chunks_concat by (simp only: append_Nil)
qed

lemma output_path_cong:
  assumes "\<And>t. map_option original_filename (jl' t) = map_option original_filename (jl t)"
  shows "output_path jl' d = output_path jl d"
proof (cases "read_file d ''file_metadata.json''")
  case None
  then show ?thesis by (simp add: output_path_def get_file_metadata_def)
next
  case (Some t)
  with assms[of t] show ?thesis
    by (cases "jl t"; cases "jl' t") (simp_all add: output_path_def get_file_metadata_def)
qed

text \<open>
  Claim C6, as amended. \<open>reconstruct_file\<close> has no check of the chunk set against
  \<open>chunk_count\<close>: of the metadata only the original file name reaches its result. Whenever
  the output name (the original file name of the metadata, \<open>reconstructed_file\<close> without
  metadata) is a plain file name and not itself a chunk name: it returns \<open>True\<close> exactly
  when some \<open>chunk_*.part\<close> file of the download directory is not empty; without any
  chunk file it returns \<open>False\<close> and writes nothing; and when it returns \<open>True\<close> the output
  file consists of the chunk files that are present, each taken once, whether or not an
  index is missing.
\<close>

theorem reconstruct_ignores_chunk_count:
  assumes "plain_name (output_path json_load d)"
      and "\<not> is_chunk_file (output_path json_load d)"
  shows "fst (reconstruct_file json_load d)
           = (\<exists>name \<in> set (listdir d). is_chunk_file name \<and> read_file d name \<noteq> Some [])
       \<and> (filter is_chunk_file (listdir d) = [] \<longrightarrow> reconstruct_file json_load d = (False, d))
       \<and> (fst (reconstruct_file json_load d) \<longrightarrow>
            (\<exists>names. mset names = mset (filter is_chunk_file (listdir d))
               \<and> read_file (snd (reconstruct_file json_load d)) (output_path json_load d)
                   = Some (concat (map (\<lambda>name. case read_file d name of Some content \<Rightarrow> content | None \<Rightarrow> [])
                                     names))))
       \<and> (\<forall>other_load.
             (\<forall>t. map_option original_filename (other_load t) = map_option original_filename (json_load t))
             \<longrightarrow> reconstruct_file other_load d = reconstruct_file json_load d)"
proof -
  let ?files = "sort (filter is_chunk_file (listdir d))"
  let ?content = "\<lambda>name. case read_file d name of Some content \<Rightarrow> content | None \<Rightarrow> []"
  note out = assms(2)
  note copy = copy_chunks_present[OF out, of d]
  have nonempty: "(concat (map ?content ?files) \<noteq> [])
      = (\<exists>name \<in> set (listdir d). is_chunk_file name \<and> read_file d name \<noteq> Some [])"
  proof
    assume "concat (map ?content ?files) \<noteq> []"
    then obtain name where n: "name \<in> set ?files" and c: "?content name \<noteq> []" by auto
    from n have "name \<in> set (listdir d)" "is_chunk_file name" by simp_all
    moreover from c have "read_file d name \<noteq> Some []" by auto
    ultimately show "\<exists>name \<in> set (listdir d). is_chunk_file name \<and> read_file d name \<noteq> Some []"
      by blast
  next
    assume "\<exists>name \<in> set (listdir d). is_chunk_file name \<and> read_file d name \<noteq> Some []"
    then obtain name where n: "name \<in> set (listdir d)" "is_chunk_file name"
      and c: "read_file d name \<noteq> Some []" by blast
    from read_listed[OF n(1)] c have "?content name \<noteq> []" by auto
    moreover from n have "name \<in> set ?files" by simp
    ultimately show "concat (map ?content ?files) \<noteq> []" by auto
  qed
  have a: "fst (reconstruct_file json_load d)
           = (\<exists>name \<in> set (listdir d). is_chunk_file name \<and> read_file d name \<noteq> Some [])"
  proof (cases "filter is_chunk_file (listdir d) = []")
    case True
    then have "\<not> (\<exists>name \<in> set (listdir d). is_chunk_file name)"
      by (simp add: filter_empty_conv)
    with True show ?thesis by (auto simp: reconstruct_file_unfold)
  next
    case False
    then have "fst (reconstruct_file json_load d) = (concat (map ?content ?files) \<noteq> [])"
      by (simp only: reconstruct_file_unfold copy if_False fst_conv)
    then show ?thesis by (simp only: nonempty)
  qed
  have b: "filter is_chunk_file (listdir d) = [] \<longrightarrow> reconstruct_file json_load d = (False, d)"
    by (simp add: reconstruct_file_unfold)
  have written: "fst (reconstruct_file json_load d) \<longrightarrow>
            read_file (snd (reconstruct_file json_load d)) (output_path json_load d)
              = Some (concat (map ?content ?files))"
    by (simp add: reconstruct_file_unfold copy read_write_same)
  have "mset ?files = mset (filter is_chunk_file (listdir d))" by simp
  with written have c: "fst (reconstruct_file json_load d) \<longrightarrow>
            (\<exists>names. mset names = mset (filter is_chunk_file (listdir d))
               \<and> read_file (snd (reconstruct_file json_load d)) (output_path json_load d)
                   = Some (concat (map ?content names)))"
    by blast
  have e: "\<forall>other_load.
             (\<forall>t. map_option original_filename (other_load t) = map_option original_filename (json_load t))
             \<longrightarrow> reconstruct_file other_load d = reconstruct_file json_load d"
  proof (intro allI impI)
    fix other_load :: "bytes \<Rightarrow> file_metadata option"
    assume "\<forall>t. map_option original_filename (other_load t) = map_option original_filename (json_load t)"
    then have "output_path other_load d = output_path json_load d"
      by (intro output_path_cong) simp
    then show "reconstruct_file other_load d = reconstruct_file json_load d"
      by (simp add: reconstruct_file_unfold)
  qed
  from a b c e show ?thesis by blast
qed

theorem reconstruct_ignores_chunk_count_witness:
  "plain_name ''a.txt''
   \<and> \<not> is_chunk_file ''a.txt''
   \<and> output_path
        (parse_only \<lparr>original_filename = ''a.txt'', extension = ''.txt'', size_md = 6, chunk_count = 3\<rparr>)
        [(''chunk_0.part'', ''ab''), (''chunk_2.part'', ''ef''),
         (''file_metadata.json'',
          json_dump \<lparr>original_filename = ''a.txt'', extension = ''.txt'', size_md = 6, chunk_count = 3\<rparr>)]
       = ''a.txt''
   \<and> fst (reconstruct_file
          (parse_only \<lparr>original_filename = ''a.txt'', extension = ''.txt'', size_md = 6, chunk_count = 3\<rparr>)
          [(''chunk_0.part'', ''ab''), (''chunk_2.part'', ''ef''),
           (''file_metadata.json'',
            json_dump \<lparr>original_filename = ''a.txt'', extension = ''.txt'', size_md = 6, chunk_count = 3\<rparr>)])"
proof -
  let ?m = "\<lparr>original_filename = ''a.txt'', extension = ''.txt'', size_md = 6, chunk_count = 3\<rparr>"
  let ?d = "[(''chunk_0.part'', ''ab''), (''chunk_2.part'', ''ef''), (''file_metadata.json'', json_dump ?m)]"
  have out: "output_path (parse_only ?m) ?d = ''a.txt''"
    by (simp add: output_path_def get_file_metadata_def read_file_def parse_only_def)
  have plain: "plain_name ''a.txt''" by (simp add: plain_name_def)
  have name: "\<not> is_chunk_file ''a.txt''" by (simp add: is_chunk_file_def startswith_def)
  have h1: "plain_name (output_path (parse_only ?m) ?d)" unfolding out by (rule plain)
  have h2: "\<not> is_chunk_file (output_path (parse_only ?m) ?d)" unfolding out by (rule name)
  have chunk: "\<exists>name \<in> set (listdir ?d). is_chunk_file name \<and> read_file ?d name \<noteq> Some []"
    by (simp add: listdir_def is_chunk_file_def startswith_def endswith_def read_file_def)
  from reconstruct_ignores_chunk_count[OF h1 h2] chunk
  have "fst (reconstruct_file (parse_only ?m) ?d)" by blast
  with plain name out show ?thesis by blast
qed

theorem missing_chunk_is_not_detected:
  "chunk_count \<lparr>original_filename = ''a.txt'', extension = ''.txt'', size_md = 6, chunk_count = 3\<rparr> = 3
   \<and> read_file [(''chunk_0.part'', ''ab''), (''chunk_2.part'', ''ef''),
                  (''file_metadata.json'',
                   json_dump \<lparr>original_filename = ''a.txt'', extension = ''.txt'', size_md = 6, chunk_count = 3\<rparr>)]
        ''chunk_1.part'' = None
   \<and> reconstruct_file
        (parse_only \<lparr>original_filename = ''a.txt'', extension = ''.txt'', size_md = 6, chunk_count = 3\<rparr>)
        [(''chunk_0.part'', ''ab''), (''chunk_2.part'', ''ef''),
         (''file_metadata.json'',
          json_dump \<lparr>original_filename = ''a.txt'', extension = ''.txt'', size_md = 6, chunk_count = 3\<rparr>)]
     = (True,
        [(''chunk_0.part'', ''ab''), (''chunk_2.part'', ''ef''),
         (''file_metadata.json'',
          json_dump \<lparr>original_filename = ''a.txt'', extension = ''.txt'', size_md = 6, chunk_count = 3\<rparr>),
         (''a.txt'', ''abef'')])"
proof -
  let ?m = "\<lparr>original_filename = ''a.txt'', extension = ''.txt'', size_md = 6, chunk_count = 3\<rparr>"
  let ?d = "[(''chunk_0.part'', ''ab''), (''chunk_2.part'', ''ef''), (''file_metadata.json'', json_dump ?m)]"
  have files: "filter is_chunk_file (listdir ?d) = [''chunk_0.part'', ''chunk_2.part'']"
    by (simp add: listdir_def is_chunk_file_def startswith_def endswith_def)
  have sorted: "sort [''chunk_0.part'', ''chunk_2.part''] = [''chunk_0.part'', ''chunk_2.part'']"
    by code_simp
  have out: "output_path (parse_only ?m) ?d = ''a.txt''"
    by (simp add: output_path_def get_file_metadata_def read_file_def parse_only_def)
  have "reconstruct_file (parse_only ?m) ?d = (True, ?d @ [(''a.txt'', ''abef'')])"
    unfolding reconstruct_file_unfold files sorted out
    by (simp add: write_file_def read_file_def)
  then show ?thesis by (simp add: read_file_def)
qed

section \<open>Round trip\<close>

lemma ceil_div_le:
  fixes n s c :: nat
  assumes "0 < s" "n \<le> c * s"
  shows "(n + s - 1) div s \<le> c"
proof -
  from assms have "n + s - 1 < (c + 1) * s" by simp
  then have "(n + s - 1) div s < c + 1"
    using assms(1) by (simp only: less_mult_imp_div_less)
  then show ?thesis by simp
qed

lemma sort_downloaded_chunk_names:
  assumes "distinct names" and "set names = chunk_name ` {0..<k} \<union> {''file_metadata.json''}"
      and "k \<le> 10"
  shows "sort (filter is_chunk_file names) = map chunk_name [0..<k]"
proof (rule sorted_distinct_set_unique)
  show "sorted (sort (filter is_chunk_file names))" by simp
  show "distinct (sort (filter is_chunk_file names))" using assms(1) by simp
  show "sorted (map chunk_name [0..<k])" by (rule sorted_chunk_names[OF assms(3)])
  show "distinct (map chunk_name [0..<k])"
    by (simp add: distinct_map inj_on_def chunk_name_inject)
  show "set (sort (filter is_chunk_file names)) = set (map chunk_name [0..<k])"
    using assms(2) is_chunk_file_chunk_name not_is_chunk_file_metadata by auto
qed

text \<open>
  Claim C1, as amended. Let a source be split with a chunk size \<open>s > 0\<close>, let the download
  directory hold exactly the files of the chunk directory, listed in any order, and let
  the metadata parse back. If the source is not empty, has at most ten chunks and is not
  itself named like a chunk, \<open>reconstruct_file\<close> returns \<open>True\<close> and leaves, under the
  original file name, a file with exactly the bytes of the source. If the source is empty,
  \<open>reconstruct_file\<close> returns \<open>False\<close> and leaves the directory as it was.
\<close>

theorem roundtrip_up_to_ten_chunks:
  assumes "0 < s"
      and "split_file chunks_dir (Some f) s = (chunks, d)"
      and "distinct (listdir downloads)" and "set downloads = set d"
      and "json_load (json_dump (split_metadata f s)) = Some (split_metadata f s)"
  shows "(src_bytes f \<noteq> [] \<and> length (src_bytes f) \<le> 10 * s \<and> \<not> is_chunk_file (src_basename f) \<longrightarrow>
            fst (reconstruct_file json_load downloads)
          \<and> read_file (snd (reconstruct_file json_load downloads)) (src_basename f) = Some (src_bytes f))
       \<and> (src_bytes f = [] \<longrightarrow> reconstruct_file json_load downloads = (False, downloads))"
proof -
  let ?n = "length (src_bytes f)"
  let ?k = "(?n + s - 1) div s"
  have "(chunks, d) = (map chunk_name [0..<?k] @ [''file_metadata.json''], split_dir f s)"
    unfolding assms(2)[symmetric] by (rule split_file_eq[OF assms(1)])
  then have d: "d = split_dir f s" by blast
  have same: "read_file downloads name = read_file (split_dir f s) name" for name
  proof -
    have "map_of downloads = map_of (split_dir f s)"
      using assms(3,4) distinct_split_dir[of f s] unfolding d listdir_def
      by (simp add: map_of_inject_set)
    then show ?thesis by (simp add: read_file_def)
  qed
  have keys: "set (listdir downloads) = chunk_name ` {0..<?k} \<union> {''file_metadata.json''}"
  proof -
    have "set (listdir downloads) = set (listdir (split_dir f s))"
      unfolding listdir_def using assms(4) d by simp
    then show ?thesis by (simp add: listdir_split_dir)
  qed
  have empty: "src_bytes f = [] \<longrightarrow> reconstruct_file json_load downloads = (False, downloads)"
  proof
    assume "src_bytes f = []"
    then have "?k = 0" using assms(1) by simp
    with keys have "set (listdir downloads) = {''file_metadata.json''}" by simp
    then have "filter is_chunk_file (listdir downloads) = []"
      by (simp add: filter_empty_conv not_is_chunk_file_metadata)
    then show "reconstruct_file json_load downloads = (False, downloads)"
      by (simp add: reconstruct_file_unfold)
  qed
  have full: "src_bytes f \<noteq> [] \<and> ?n \<le> 10 * s \<and> \<not> is_chunk_file (src_basename f) \<longrightarrow>
            fst (reconstruct_file json_load downloads)
          \<and> read_file (snd (reconstruct_file json_load downloads)) (src_basename f) = Some (src_bytes f)"
  proof
    assume h: "src_bytes f \<noteq> [] \<and> ?n \<le> 10 * s \<and> \<not> is_chunk_file (src_basename f)"
    then have k10: "?k \<le> 10" using assms(1) by (intro ceil_div_le) simp_all
    from h have kpos: "0 < ?k" using ceil_div_Suc[OF assms(1), of ?n] by simp
    have files: "sort (filter is_chunk_file (listdir downloads)) = map chunk_name [0..<?k]"
      by (rule sort_downloaded_chunk_names[OF assms(3) keys k10])
    then have ne: "filter is_chunk_file (listdir downloads) \<noteq> []"
      using kpos by (metis length_sort length_map length_upt list.size(3) less_numeral_extra(3) diff_zero)
    have "get_file_metadata json_load downloads = Some (split_metadata f s)"
      by (simp add: get_file_metadata_def same read_split_dir_metadata assms(5))
    then have out: "output_path json_load downloads = src_basename f"
      by (simp add: output_path_def split_metadata_def)
    from h have nc: "\<not> is_chunk_file (output_path json_load downloads)" by (simp add: out)
    have content: "(case read_file downloads (chunk_name j) of Some content \<Rightarrow> content | None \<Rightarrow> [])
        = take s (drop (j * s) (src_bytes f))" if "j < ?k" for j
      by (simp add: same read_split_dir_chunk[OF that])
    have maps: "map (\<lambda>name. case read_file downloads name of Some content \<Rightarrow> content | None \<Rightarrow> [])
            (map chunk_name [0..<?k])
        = windows s (src_bytes f)"
    proof -
      have "map (\<lambda>name. case read_file downloads name of Some content \<Rightarrow> content | None \<Rightarrow> [])
              (map chunk_name [0..<?k])
          = map (\<lambda>j. take s (drop (j * s) (src_bytes f))) [0..<?k]"
        unfolding map_map comp_def by (intro map_cong[OF refl]) (simp add: content)
      also have "\<dots> = windows s (src_bytes f)"
        by (rule windows_eq_map[OF assms(1), symmetric])
      finally show ?thesis .
    qed
    have "copy_chunks (write_file downloads (output_path json_load downloads) [])
            (sort (filter is_chunk_file (listdir downloads))) []
        = concat (map (\<lambda>name. case read_file downloads name of Some content \<Rightarrow> content | None \<Rightarrow> [])
                    (sort (filter is_chunk_file (listdir downloads))))"
      by (rule copy_chunks_present[OF nc])
    also have "\<dots> = concat (windows s (src_bytes f))"
      by (simp only: files maps)
    also have "\<dots> = src_bytes f" by (rule concat_windows[OF assms(1)])
    finally have copy: "copy_chunks (write_file downloads (output_path json_load downloads) [])
        (sort (filter is_chunk_file (listdir downloads))) [] = src_bytes f" .
    from h have bytes: "src_bytes f \<noteq> []" by simp
    show "fst (reconstruct_file json_load downloads)
          \<and> read_file (snd (reconstruct_file json_load downloads)) (src_basename f) = Some (src_bytes f)"
      unfolding reconstruct_file_unfold copy using ne bytes
      by (simp add: out read_write_same)
  qed
  from full empty show ?thesis by blast
qed

theorem roundtrip_up_to_ten_chunks_witness:
  "0 < (4::nat)
   \<and> ''hello world'' \<noteq> [] \<and> length ''hello world'' \<le> 10 * (4::nat) \<and> \<not> is_chunk_file ''a.txt''
   \<and> fst (reconstruct_file
        (parse_only (split_metadata \<lparr>src_basename = ''a.txt'', src_extension = ''.txt'', src_bytes = ''hello world''\<rparr> 4))
        (snd (split_file None (Some \<lparr>src_basename = ''a.txt'', src_extension = ''.txt'', src_bytes = ''hello world''\<rparr>) 4)))
   \<and> read_file (snd (reconstruct_file
        (parse_only (split_metadata \<lparr>src_basename = ''a.txt'', src_extension = ''.txt'', src_bytes = ''hello world''\<rparr> 4))
        (snd (split_file None (Some \<lparr>src_basename = ''a.txt'', src_extension = ''.txt'', src_bytes = ''hello world''\<rparr>) 4))))
       ''a.txt'' = Some ''hello world''"
proof -
  let ?f = "\<lparr>src_basename = ''a.txt'', src_extension = ''.txt'', src_bytes = ''hello world''\<rparr>"
  let ?r = "split_file None (Some ?f) 4"
  let ?jl = "parse_only (split_metadata ?f 4)"
  have pos: "0 < (4::nat)" by simp
  have pair: "?r = (fst ?r, snd ?r)" by simp
  have dist: "distinct (listdir (snd ?r))"
    using distinct_split_dir[of ?f 4] by (simp add: split_file_eq listdir_def)
  have same: "set (snd ?r) = set (snd ?r)" ..
  have parse: "?jl (json_dump (split_metadata ?f 4)) = Some (split_metadata ?f 4)"
    by (simp add: parse_only_def)
  have name: "\<not> is_chunk_file ''a.txt''" by (simp add: is_chunk_file_def startswith_def)
  from roundtrip_up_to_ten_chunks[where s = 4 and chunks_dir = None and f = ?f
        and chunks = "fst ?r" and d = "snd ?r" and downloads = "snd ?r" and json_load = ?jl,
        OF pos pair dist same parse] name
  show ?thesis by simp
qed

theorem empty_file_is_not_reconstructed:
  "fst (reconstruct_file
         (parse_only \<lparr>original_filename = ''empty.txt'', extension = ''.txt'', size_md = 0, chunk_count = 0\<rparr>)
         (snd (split_file None
            (Some \<lparr>src_basename = ''empty.txt'', src_extension = ''.txt'', src_bytes = []\<rparr>) (1024 * 1024))))
     = False
   \<and> read_file (snd (reconstruct_file
         (parse_only \<lparr>original_filename = ''empty.txt'', extension = ''.txt'', size_md = 0, chunk_count = 0\<rparr>)
         (snd (split_file None
            (Some \<lparr>src_basename = ''empty.txt'', src_extension = ''.txt'', src_bytes = []\<rparr>) (1024 * 1024)))))
       ''empty.txt'' = None"
  by (simp add: split_file_empty reconstruct_file_unfold listdir_def read_file_def
      not_is_chunk_file_metadata)

end
